theory Spec2Isabelle
  imports Main "HOL-Library.Word"
begin

unbundle bit_operations_syntax

section \<open>Machine types and console output\<close>

type_synonym u32 = "32 word"
type_synonym u64 = "64 word"

text \<open>
  Lines the program prints unconditionally (the \<open>VERBOSE0\<close> macro). Output that is
  gated by \<open>verbose_level\<close> (\<open>VERBOSE1\<close> .. \<open>VERBOSE4\<close>) is diagnostic only and is
  left out of the model.
\<close>

datatype message =
    Msg_mismatch int u64 u64      \<comment> \<open>\<open>@ i Expect: e Read: d\<close> of \<open>memcmp2\<close>\<close>
  | Msg_newline                   \<comment> \<open>the closing line break of \<open>memcmp2\<close> when \<open>rc \<noteq> 0\<close>\<close>
  | Msg_drive_range
  | Msg_blocks_low
  | Msg_blocks_high
  | Msg_offset_align
  | Msg_offset_high
  | Msg_offset_blocks_high
  | Msg_usage
  | Msg_version
  | Msg_card_alloc
  | Msg_nvme_not_enabled
  | Msg_posix_memalign
  | Msg_no_buffers
  | Msg_no_attach
  | Msg_timeout

section \<open>Buffer verifier: \<open>memset_ad\<close> and \<open>memcmp2\<close>\<close>

text \<open>
  A buffer is the list of its 8-byte words; a \<open>uint64_t *\<close> into it is an index.
  An access past the end of the buffer is undefined behaviour in C: the model returns
  \<open>None\<close> there. The loop counter \<open>i\<close> and \<open>size\<close> (here \<open>sz\<close>) are C \<open>int\<close>s; the loop adds 8
  to \<open>i\<close> while \<open>i < size\<close>, so \<open>i\<close> stays below \<open>size + 8\<close> and is modelled by an
  unbounded integer.
\<close>

function memset_ad_loop :: "u64 list \<Rightarrow> nat \<Rightarrow> u64 \<Rightarrow> int \<Rightarrow> int \<Rightarrow> u64 list option" where
  "memset_ad_loop buf a64 pattern i sz =
     (if i < sz then
        (if a64 < length buf then
           memset_ad_loop
             (buf[a64 := (pattern AND 0xffffffff) OR push_bit 32 (NOT pattern)])
             (a64 + 1) (pattern + 8) (i + 8) sz
         else None)
      else Some buf)"
  by pat_completeness auto
termination
  by (relation "measure (\<lambda>(buf, a64, pattern, i, sz). nat (sz - i))") auto

definition memset_ad :: "u64 list \<Rightarrow> u64 \<Rightarrow> int \<Rightarrow> u64 list option" where
  "memset_ad a pattern sz = memset_ad_loop a 0 pattern 0 sz"

text \<open>
  The result of \<open>memcmp2\<close>: the returned \<open>rc\<close>, the lines printed, and the value of the
  loop counter \<open>i\<close> when the loop was left (\<open>i \<ge> size\<close> exactly when the loop ran to its
  end, that is, when every word of the buffers was compared).
\<close>

record cmp_result =
  cmp_rc :: int
  cmp_out :: "message list"
  cmp_i :: int

text \<open>
  \<open>memcmp2_exit\<close> is the code at the label \<open>__memcmp2_exit\<close>: it prints a line break
  when \<open>rc\<close> is not 0 and returns \<open>rc\<close>. The loop reaches it by \<open>goto\<close> with the
  count \<open>rc > 10\<close>, or by falling out of the \<open>for\<close> and through \<open>rc = 0\<close>.
\<close>

definition memcmp2_exit :: "int \<Rightarrow> message list \<Rightarrow> int \<Rightarrow> cmp_result" where
  "memcmp2_exit rc out i =
     \<lparr>cmp_rc = rc, cmp_out = (if 0 \<noteq> rc then out @ [Msg_newline] else out), cmp_i = i\<rparr>"

function memcmp2_loop ::
  "u64 list \<Rightarrow> u64 list \<Rightarrow> nat \<Rightarrow> nat \<Rightarrow> int \<Rightarrow> message list \<Rightarrow> int \<Rightarrow> int \<Rightarrow> cmp_result option"
where
  "memcmp2_loop dest src a64d a64s rc out i sz =
     (if i < sz then
        (if a64d < length dest \<and> a64s < length src then
           (let data = dest ! a64d; expect = src ! a64s in
            if data \<noteq> expect then
              (let out' = out @ [Msg_mismatch i expect data]; rc' = rc + 1 in
               if rc' > 10 then Some (memcmp2_exit rc' out' i)
               else memcmp2_loop dest src (a64d + 1) (a64s + 1) rc' out' (i + 8) sz)
            else memcmp2_loop dest src (a64d + 1) (a64s + 1) rc out (i + 8) sz)
         else None)
      else Some (memcmp2_exit 0 out i))"
  by pat_completeness auto
termination
  by (relation "measure (\<lambda>(dest, src, a64d, a64s, rc, out, i, sz). nat (sz - i))") auto

definition memcmp2 :: "u64 list \<Rightarrow> u64 list \<Rightarrow> int \<Rightarrow> cmp_result option" where
  "memcmp2 dest src sz = memcmp2_loop dest src 0 0 0 [] 0 sz"

declare memset_ad_loop.simps [simp del]
declare memcmp2_loop.simps [simp del]

fun is_mismatch :: "message \<Rightarrow> bool" where
  "is_mismatch (Msg_mismatch i e d) = True"
| "is_mismatch m = False"

section \<open>Queue submitter: \<open>nvme_read_test\<close>\<close>

subsection \<open>Registers of the NVMe window\<close>

definition DPTR_LOW :: u32 where "DPTR_LOW = 0x00"
definition DPTR_HIGH :: u32 where "DPTR_HIGH = 0x04"
definition LBA_LOW :: u32 where "LBA_LOW = 0x08"
definition LBA_HIGH :: u32 where "LBA_HIGH = 0x0c"
definition LBA_NUM :: u32 where "LBA_NUM = 0x10"
definition COMMAND_REG :: u32 where "COMMAND_REG = 0x14"
definition CMD_QUEUE_ID_SSD0_IOQ :: u32 where "CMD_QUEUE_ID_SSD0_IOQ = push_bit 4 1"
definition CMD_QUEUE_ID_SSD1_IOQ :: u32 where "CMD_QUEUE_ID_SSD1_IOQ = push_bit 4 3"
definition CMD_ACTION_ID :: "u32 \<Rightarrow> u32" where "CMD_ACTION_ID aid = push_bit 8 aid"
definition STATUS_REG :: u32 where "STATUS_REG = 0x00"
definition SUB_Q_FULL_SSD0_IO :: u32 where "SUB_Q_FULL_SSD0_IO = 0x02"
definition SUB_Q_FULL_SSD1_IO :: u32 where "SUB_Q_FULL_SSD1_IO = 0x08"
definition TRACK_REG :: u32 where "TRACK_REG = 0x04"

subsection \<open>Hardware operations\<close>

text \<open>
  Everything the program does to the card, in the order it does it. \<open>Nvme_read a v\<close>
  is \<open>nvme_mmio_read\<close> at the address \<open>a\<close> (the register offset plus
  \<open>SNAP_M_NVME_OFFSET\<close>) returning \<open>v\<close>; \<open>Nvme_write a v\<close> is \<open>nvme_mmio_write\<close>;
  \<open>Action_write a v\<close> is \<open>action_write\<close>. A failing \<open>snap_mmio_read32\<close> or
  \<open>snap_mmio_write32\<close> only prints a line and the program goes on with whatever value
  the read left behind, so the model keeps the access and the value and not the line.
\<close>

datatype hw_op =
    Card_alloc_slave
  | Card_alloc_master
  | Card_ioctl
  | Attach_action
  | Action_write u32 u32
  | Action_start
  | Action_completed
  | Nvme_read u32 u32
  | Nvme_write u32 u32
  | Detach_action
  | Card_free_master
  | Card_free_slave

text \<open>
  The hardware as the program sees it: \<open>hw k a\<close> is the value the \<open>k\<close>-th MMIO read
  of the run (counted from 0) returns when it reads the address \<open>a\<close>. Every sequence
  of status and track values is such a function.
\<close>

type_synonym hardware = "nat \<Rightarrow> u32 \<Rightarrow> u32"

subsection \<open>The function, statement by statement\<close>

text \<open>
  A control point is named by the source line of the statement that runs next.
  \<open>L328\<close> is \<open>return 0\<close>.
\<close>

datatype label =
    L298 | L299 | L300 | L301 | L302 | L304 | L309 | L310 | L314 | L315 | L316 | L317
  | L318 | L322 | L324 | L325 | L328

text \<open>
  The local variables (\<open>n_idx\<close> is the loop counter \<open>n\<close>), the number of MMIO reads
  done so far and the hardware operations done so far. \<open>qin\<close> and \<open>n\<close> are C
  \<open>int\<close>s: \<open>n\<close> counts up to \<open>nmax\<close> and \<open>qin\<close> stays between \<open>-1\<close> and \<open>n + 1\<close>
  (lemma \<open>nvme_exec_qin_range\<close>), so neither wraps and both are modelled by
  unbounded integers.
\<close>

record nvme_state =
  pc :: label
  qin :: int
  n_idx :: int
  dptr_low :: u32
  lba_low :: u32
  val32 :: u32
  reads :: nat
  trace :: "hw_op list"

definition ssd_ioq_full :: "int \<Rightarrow> u32" where
  "ssd_ioq_full drive = (if 1 = drive then SUB_Q_FULL_SSD1_IO else SUB_Q_FULL_SSD0_IO)"

definition cmd_reg :: "int \<Rightarrow> u32" where
  "cmd_reg drive =
     (if 1 = drive then CMD_QUEUE_ID_SSD1_IOQ else CMD_QUEUE_ID_SSD0_IOQ) OR CMD_ACTION_ID 0xef"

definition nvme_mmio_write :: "u32 \<Rightarrow> u32 \<Rightarrow> u32 \<Rightarrow> nvme_state \<Rightarrow> nvme_state" where
  "nvme_mmio_write base addr data s = s\<lparr>trace := trace s @ [Nvme_write (addr + base) data]\<rparr>"

definition nvme_mmio_read :: "hardware \<Rightarrow> u32 \<Rightarrow> u32 \<Rightarrow> nvme_state \<Rightarrow> nvme_state" where
  "nvme_mmio_read hw base addr s =
     (let data = hw (reads s) (addr + base) in
      s\<lparr>val32 := data, reads := Suc (reads s), trace := trace s @ [Nvme_read (addr + base) data]\<rparr>)"

text \<open>
  The state in which the function is entered: lines 285 to 296 have set the constants,
  \<open>qin\<close>, \<open>n\<close> and \<open>val32\<close> are not yet assigned (the model holds 0 there; the code
  assigns each before it reads it).
\<close>

definition nvme_entry :: nvme_state where
  "nvme_entry = \<lparr>pc = L298, qin = 0, n_idx = 0, dptr_low = 0, lba_low = 0, val32 = 0,
                  reads = 0, trace = []\<rparr>"

text \<open>
  One statement. \<open>base\<close> is \<open>SNAP_M_NVME_OFFSET\<close> (declared in \<open>snap_m_regs.h\<close>).
  \<open>blocks\<close> is an \<open>int\<close>: line 300 and line 318 convert it to \<open>uint32_t\<close>, line 319
  converts \<open>512 * blocks\<close> (no \<open>int\<close> overflow for the block counts \<open>main\<close> passes,
  which are at most 65536).
\<close>

definition nvme_step :: "hardware \<Rightarrow> u32 \<Rightarrow> int \<Rightarrow> int \<Rightarrow> int \<Rightarrow> nvme_state \<Rightarrow> nvme_state" where
  "nvme_step hw base drive blocks nmax s =
     (case pc s of
        L298 \<Rightarrow> (nvme_mmio_write base DPTR_HIGH 2 s)\<lparr>pc := L299\<rparr>
      | L299 \<Rightarrow> (nvme_mmio_write base LBA_HIGH 0 s)\<lparr>pc := L300\<rparr>
      | L300 \<Rightarrow> (nvme_mmio_write base LBA_NUM (word_of_int blocks) s)\<lparr>pc := L301\<rparr>
      | L301 \<Rightarrow> s\<lparr>qin := 0, n_idx := 0, pc := L302\<rparr>
      | L302 \<Rightarrow> (if n_idx s < nmax then s\<lparr>pc := L304\<rparr> else s\<lparr>pc := L322\<rparr>)
      | L304 \<Rightarrow>
          (let s' = nvme_mmio_read hw base STATUS_REG s in
           if 0 = (ssd_ioq_full drive AND val32 s') then s'\<lparr>pc := L309\<rparr> else s'\<lparr>pc := L304\<rparr>)
      | L309 \<Rightarrow> (nvme_mmio_read hw base TRACK_REG s)\<lparr>pc := L310\<rparr>
      | L310 \<Rightarrow> (if val32 s > 0 then s\<lparr>qin := qin s - 1, pc := L314\<rparr> else s\<lparr>pc := L314\<rparr>)
      | L314 \<Rightarrow> (nvme_mmio_write base DPTR_LOW (dptr_low s) s)\<lparr>pc := L315\<rparr>
      | L315 \<Rightarrow> (nvme_mmio_write base LBA_LOW (lba_low s) s)\<lparr>pc := L316\<rparr>
      | L316 \<Rightarrow> (nvme_mmio_write base COMMAND_REG (cmd_reg drive) s)\<lparr>pc := L317\<rparr>
      | L317 \<Rightarrow> s\<lparr>qin := qin s + 1, pc := L318\<rparr>
      | L318 \<Rightarrow> s\<lparr>lba_low := lba_low s + word_of_int blocks,
                    dptr_low := dptr_low s + word_of_int (512 * blocks),
                    n_idx := n_idx s + 1, pc := L302\<rparr>
      | L322 \<Rightarrow> (if qin s \<noteq> 0 then s\<lparr>pc := L324\<rparr> else s\<lparr>pc := L328\<rparr>)
      | L324 \<Rightarrow> (nvme_mmio_read hw base TRACK_REG s)\<lparr>pc := L325\<rparr>
      | L325 \<Rightarrow> (if val32 s > 0 then s\<lparr>qin := qin s - 1, pc := L322\<rparr> else s\<lparr>pc := L322\<rparr>)
      | L328 \<Rightarrow> s)"

text \<open>The state after \<open>k\<close> statements: every point of every execution is one of these.\<close>

definition nvme_exec :: "hardware \<Rightarrow> u32 \<Rightarrow> int \<Rightarrow> int \<Rightarrow> int \<Rightarrow> nat \<Rightarrow> nvme_state" where
  "nvme_exec hw base drive blocks nmax k = (nvme_step hw base drive blocks nmax ^^ k) nvme_entry"

text \<open>
  Running to the \<open>return\<close>. Both polling loops are unbounded, so the function may never
  return: with \<open>fuel\<close> statements allowed, \<open>None\<close> says it has not returned yet.
\<close>

fun nvme_run :: "hardware \<Rightarrow> u32 \<Rightarrow> int \<Rightarrow> int \<Rightarrow> int \<Rightarrow> nat \<Rightarrow> nvme_state \<Rightarrow> nvme_state option" where
  "nvme_run hw base drive blocks nmax fuel s =
     (if pc s = L328 then Some s
      else case fuel of
             0 \<Rightarrow> None
           | Suc f \<Rightarrow> nvme_run hw base drive blocks nmax f (nvme_step hw base drive blocks nmax s))"

definition nvme_read_test :: "hardware \<Rightarrow> u32 \<Rightarrow> nat \<Rightarrow> int \<Rightarrow> int \<Rightarrow> int \<Rightarrow> nvme_state option" where
  "nvme_read_test hw base fuel drive blocks nmax = nvme_run hw base drive blocks nmax fuel nvme_entry"

declare nvme_run.simps [simp del]

subsection \<open>Properties of a trace\<close>

text \<open>
  \<open>submissions_guarded full base tr\<close>: reading \<open>tr\<close> in order, every write of the command
  register comes when the latest read of the status register had the bit \<open>full\<close> clear,
  and that read was made after the previous write of the command register. The monitor
  keeps (all submissions so far were guarded, a status read with the bit clear is the
  latest status read since the last submission).
\<close>

definition backpressure_step :: "u32 \<Rightarrow> u32 \<Rightarrow> bool \<times> bool \<Rightarrow> hw_op \<Rightarrow> bool \<times> bool" where
  "backpressure_step full base st e =
     (case e of
        Nvme_read a v \<Rightarrow> (if a = STATUS_REG + base then (fst st, full AND v = 0) else st)
      | Nvme_write a v \<Rightarrow> (if a = COMMAND_REG + base then (fst st \<and> snd st, False) else st)
      | _ \<Rightarrow> st)"

definition submissions_guarded :: "u32 \<Rightarrow> u32 \<Rightarrow> hw_op list \<Rightarrow> bool" where
  "submissions_guarded full base tr = fst (foldl (backpressure_step full base) (True, False) tr)"

text \<open>
  \<open>one_track_read_per_submission base tr\<close>: reading \<open>tr\<close> in order, exactly one read of
  the track register lies between each write of the command register and the one before
  it (the start of the trace, for the first). The monitor keeps (so far so good, track
  reads since the last submission).
\<close>

definition track_step :: "u32 \<Rightarrow> bool \<times> nat \<Rightarrow> hw_op \<Rightarrow> bool \<times> nat" where
  "track_step base st e =
     (case e of
        Nvme_read a v \<Rightarrow> (if a = TRACK_REG + base then (fst st, Suc (snd st)) else st)
      | Nvme_write a v \<Rightarrow> (if a = COMMAND_REG + base then (fst st \<and> snd st = 1, 0) else st)
      | _ \<Rightarrow> st)"

definition one_track_read_per_submission :: "u32 \<Rightarrow> hw_op list \<Rightarrow> bool" where
  "one_track_read_per_submission base tr = fst (foldl (track_step base) (True, 0) tr)"

text \<open>The values written to \<open>DPTR_LOW\<close> and to \<open>LBA_LOW\<close>, in order.\<close>

definition dptr_low_writes :: "u32 \<Rightarrow> hw_op list \<Rightarrow> u32 list" where
  "dptr_low_writes base tr =
     concat (map (\<lambda>e. case e of Nvme_write a v \<Rightarrow> (if a = DPTR_LOW + base then [v] else [])
                          | _ \<Rightarrow> []) tr)"

definition lba_low_writes :: "u32 \<Rightarrow> hw_op list \<Rightarrow> u32 list" where
  "lba_low_writes base tr =
     concat (map (\<lambda>e. case e of Nvme_write a v \<Rightarrow> (if a = LBA_LOW + base then [v] else [])
                          | _ \<Rightarrow> []) tr)"

subsection \<open>Invariants of the control points\<close>

definition qin_inv :: "int \<Rightarrow> nvme_state \<Rightarrow> bool" where
  "qin_inv nmax s \<longleftrightarrow>
     0 \<le> n_idx s \<and> n_idx s \<le> max 0 nmax \<and>
     (case pc s of
        L298 \<Rightarrow> qin s = 0 \<and> n_idx s = 0
      | L299 \<Rightarrow> qin s = 0 \<and> n_idx s = 0
      | L300 \<Rightarrow> qin s = 0 \<and> n_idx s = 0
      | L301 \<Rightarrow> qin s = 0 \<and> n_idx s = 0
      | L302 \<Rightarrow> 0 \<le> qin s \<and> qin s \<le> n_idx s
      | L304 \<Rightarrow> 0 \<le> qin s \<and> qin s \<le> n_idx s \<and> n_idx s < nmax
      | L309 \<Rightarrow> 0 \<le> qin s \<and> qin s \<le> n_idx s \<and> n_idx s < nmax
      | L310 \<Rightarrow> 0 \<le> qin s \<and> qin s \<le> n_idx s \<and> n_idx s < nmax
      | L314 \<Rightarrow> - 1 \<le> qin s \<and> qin s \<le> n_idx s \<and> n_idx s < nmax
      | L315 \<Rightarrow> - 1 \<le> qin s \<and> qin s \<le> n_idx s \<and> n_idx s < nmax
      | L316 \<Rightarrow> - 1 \<le> qin s \<and> qin s \<le> n_idx s \<and> n_idx s < nmax
      | L317 \<Rightarrow> - 1 \<le> qin s \<and> qin s \<le> n_idx s \<and> n_idx s < nmax
      | L318 \<Rightarrow> 0 \<le> qin s \<and> qin s \<le> n_idx s + 1 \<and> n_idx s < nmax
      | L322 \<Rightarrow> 0 \<le> qin s \<and> qin s \<le> n_idx s \<and> n_idx s = max 0 nmax
      | L324 \<Rightarrow> 1 \<le> qin s \<and> qin s \<le> n_idx s \<and> n_idx s = max 0 nmax
      | L325 \<Rightarrow> 1 \<le> qin s \<and> qin s \<le> n_idx s \<and> n_idx s = max 0 nmax
      | L328 \<Rightarrow> qin s = 0 \<and> n_idx s = max 0 nmax)"

definition bp_inv :: "u32 \<Rightarrow> u32 \<Rightarrow> nvme_state \<Rightarrow> bool" where
  "bp_inv full base s \<longleftrightarrow>
     (let st = foldl (backpressure_step full base) (True, False) (trace s) in
      fst st \<and> (case pc s of L309 \<Rightarrow> snd st | L310 \<Rightarrow> snd st | L314 \<Rightarrow> snd st
                 | L315 \<Rightarrow> snd st | L316 \<Rightarrow> snd st | _ \<Rightarrow> True))"

definition track_inv :: "u32 \<Rightarrow> nvme_state \<Rightarrow> bool" where
  "track_inv base s \<longleftrightarrow>
     (let st = foldl (track_step base) (True, 0) (trace s) in
      fst st \<and> (case pc s of
                   L298 \<Rightarrow> snd st = 0 | L299 \<Rightarrow> snd st = 0 | L300 \<Rightarrow> snd st = 0
                 | L301 \<Rightarrow> snd st = 0 | L302 \<Rightarrow> snd st = 0 | L304 \<Rightarrow> snd st = 0
                 | L309 \<Rightarrow> snd st = 0 | L310 \<Rightarrow> snd st = 1 | L314 \<Rightarrow> snd st = 1
                 | L315 \<Rightarrow> snd st = 1 | L316 \<Rightarrow> snd st = 1 | L317 \<Rightarrow> snd st = 0
                 | L318 \<Rightarrow> snd st = 0 | _ \<Rightarrow> True))"

text \<open>
  The number of \<open>DPTR_LOW\<close> (of \<open>LBA_LOW\<close>) writes done when control is at a label, beyond
  the one per finished iteration.
\<close>

definition dptr_pending :: "label \<Rightarrow> nat" where
  "dptr_pending l = (if l = L315 \<or> l = L316 \<or> l = L317 \<or> l = L318 then 1 else 0)"

definition lba_pending :: "label \<Rightarrow> nat" where
  "lba_pending l = (if l = L316 \<or> l = L317 \<or> l = L318 then 1 else 0)"

definition burst_inv :: "u32 \<Rightarrow> int \<Rightarrow> nvme_state \<Rightarrow> bool" where
  "burst_inv base blocks s \<longleftrightarrow>
     0 \<le> n_idx s \<and>
     (pc s = L298 \<or> pc s = L299 \<or> pc s = L300 \<or> pc s = L301 \<longrightarrow> n_idx s = 0) \<and>
     dptr_low s = word_of_int (512 * blocks * n_idx s) \<and>
     lba_low s = word_of_int (blocks * n_idx s) \<and>
     dptr_low_writes base (trace s) =
       map (\<lambda>j. word_of_int (512 * blocks * int j)) [0..<nat (n_idx s) + dptr_pending (pc s)] \<and>
     lba_low_writes base (trace s) =
       map (\<lambda>j. word_of_int (blocks * int j)) [0..<nat (n_idx s) + lba_pending (pc s)]"

section \<open>Session driver: \<open>main\<close>\<close>

subsection \<open>Constants\<close>

definition NVME_LB_SIZE :: nat where "NVME_LB_SIZE = 512"
definition NVME_DRIVE_SIZE :: u64 where "NVME_DRIVE_SIZE = 4 * (1024 * (1024 * 1024))"
definition NVME_MAX_TRANSFER_SIZE :: u64 where "NVME_MAX_TRANSFER_SIZE = 32 * (1024 * 1024)"
definition max_blocks :: u64 where "max_blocks = NVME_MAX_TRANSFER_SIZE div 512"

text \<open>
  Constants of \<open>snap_m_regs.h\<close> and \<open>snap_example.h\<close>, which are not part of the sources
  at hand: the offset of the NVMe window, the registers of the copy action and its two
  copy commands. They are parameters of the model.
\<close>

record platform =
  SNAP_M_NVME_OFFSET :: u32
  ACTION_CONFIG :: u32
  ACTION_DEST_LOW :: u32
  ACTION_DEST_HIGH :: u32
  ACTION_SRC_LOW :: u32
  ACTION_SRC_HIGH :: u32
  ACTION_CNT :: u32
  ACTION_CONFIG_COPY_HD :: u32
  ACTION_CONFIG_COPY_DH :: u32

subsection \<open>The command line\<close>

text \<open>
  One element per option \<open>getopt_long\<close> returns, in order, with the value \<open>strtol\<close> or
  \<open>strtoll\<close> reads from its argument (a 64-bit \<open>long\<close> or \<open>long long\<close>, kept as its bit
  pattern). \<open>Opt_other\<close> is any option the \<open>switch\<close> has no case for: one that
  \<open>getopt_long\<close> does not know, or \<open>-q\<close>.
\<close>

datatype cli_option =
    Opt_verbose
  | Opt_version
  | Opt_help
  | Opt_card u64
  | Opt_timeout u64
  | Opt_drive u64
  | Opt_blocks u64
  | Opt_offset u64
  | Opt_irq
  | Opt_other

text \<open>
  The variables of \<open>main\<close> that the option loop sets. \<open>drive_no\<close> is \<open>drive\<close> and
  \<open>n_blocks\<close> is \<open>blocks\<close> (a \<open>uint32_t\<close>); \<open>irq\<close> says that \<open>attach_flags\<close> holds the two
  interrupt flags instead of 0.
\<close>

record config =
  verbose_level :: int
  card_no :: int
  timeout :: int
  drive_no :: int
  n_blocks :: u32
  nvme_offset :: u64
  irq :: bool

definition default_config :: config where
  "default_config = \<lparr>verbose_level = 0, card_no = 0, timeout = 1, drive_no = 0, n_blocks = 1,
                      nvme_offset = 0, irq = False\<rparr>"

text \<open>
  The body of the \<open>switch\<close> (lines 394 to 447): \<open>Inl (code, lines)\<close> is \<open>exit(code)\<close>
  after printing \<open>lines\<close>. An assignment of a \<open>long\<close> to an \<open>int\<close> keeps the low 32 bits,
  read as two's complement; the assignment to the \<open>uint32_t blocks\<close> keeps the low 32
  bits.
\<close>

definition getopt_case :: "config \<Rightarrow> cli_option \<Rightarrow> (int \<times> message list) + config" where
  "getopt_case c cmd =
     (case cmd of
        Opt_verbose \<Rightarrow> Inr (c\<lparr>verbose_level := verbose_level c + 1\<rparr>)
      | Opt_version \<Rightarrow> Inl (0, [Msg_version])
      | Opt_help \<Rightarrow> Inl (0, [Msg_usage])
      | Opt_card v \<Rightarrow> Inr (c\<lparr>card_no := sint (ucast v :: u32)\<rparr>)
      | Opt_timeout v \<Rightarrow> Inr (c\<lparr>timeout := sint (ucast v :: u32)\<rparr>)
      | Opt_drive v \<Rightarrow>
          (let drive = sint (ucast v :: u32) in
           if 0 \<noteq> drive \<and> 1 \<noteq> drive then Inl (1, [Msg_drive_range])
           else Inr (c\<lparr>drive_no := drive\<rparr>))
      | Opt_blocks v \<Rightarrow>
          (let blocks = (ucast v :: u32) in
           if blocks \<le> 0 then Inl (1, [Msg_blocks_low])
           else if (ucast blocks :: u64) > max_blocks then Inl (1, [Msg_blocks_high])
           else Inr (c\<lparr>n_blocks := blocks\<rparr>))
      | Opt_offset v \<Rightarrow>
          (if 0 \<noteq> (v AND 0x1ff) then Inl (1, [Msg_offset_align])
           else if v > NVME_DRIVE_SIZE then Inl (1, [Msg_offset_high])
           else Inr (c\<lparr>nvme_offset := v\<rparr>))
      | Opt_irq \<Rightarrow> Inr (c\<lparr>irq := True\<rparr>)
      | Opt_other \<Rightarrow> Inl (1, [Msg_usage]))"

fun parse_args :: "config \<Rightarrow> cli_option list \<Rightarrow> (int \<times> message list) + config" where
  "parse_args c [] = Inr c"
| "parse_args c (cmd # rest) =
     (case getopt_case c cmd of
        Inl e \<Rightarrow> Inl e
      | Inr c' \<Rightarrow> parse_args c' rest)"

text \<open>
  What a run of \<open>main\<close> leaves behind: the value it returns or passes to \<open>exit\<close>, the
  hardware operations it made and the lines it printed.
\<close>

record outcome =
  exit_code :: int
  hw_ops :: "hw_op list"
  printed :: "message list"

text \<open>
  Lines 374 to 458: the option loop and the two checks after it. \<open>mem_size\<close> is a
  \<open>uint32_t\<close>, the sum with the offset is 64 bits wide.
\<close>

definition validate :: "cli_option list \<Rightarrow> outcome + config" where
  "validate opts =
     (case parse_args default_config opts of
        Inl (code, msgs) \<Rightarrow> Inl \<lparr>exit_code = code, hw_ops = [], printed = msgs\<rparr>
      | Inr c \<Rightarrow>
          (let mem_size = n_blocks c * 512 in
           if nvme_offset c + ucast mem_size > NVME_DRIVE_SIZE then
             Inl \<lparr>exit_code = 1, hw_ops = [], printed = [Msg_offset_blocks_high]\<rparr>
           else if card_no c > 3 then
             Inl \<lparr>exit_code = 1, hw_ops = [], printed = [Msg_usage]\<rparr>
           else Inr c))"

text \<open>
  What the option loop guarantees of the configuration it ends with (lemma
  \<open>parse_args_good\<close>): the block count lies in 1 .. 65536 and the offset is a multiple
  of 512 not above the drive size.
\<close>

definition good_config :: "config \<Rightarrow> bool" where
  "good_config c \<longleftrightarrow>
     0 < unat (n_blocks c) \<and> unat (n_blocks c) \<le> 65536 \<and>
     512 dvd unat (nvme_offset c) \<and> unat (nvme_offset c) \<le> 4294967296"

subsection \<open>The session\<close>

text \<open>
  What the world outside the program decides: whether the two card handles, the two
  buffers and the action can be had, what the ioctl stores in \<open>have_nvme\<close>, what
  \<open>snap_action_completed\<close> returns for the two copies, what the NVMe registers return,
  what the fresh source buffer holds and what the destination buffer holds when it is
  compared. \<open>src_buf\<close> and \<open>dest_buf\<close> are the addresses \<open>get_mem\<close> returns (\<open>None\<close> for
  \<open>NULL\<close>).
\<close>

record environment =
  slave_h :: bool
  master_h :: bool
  have_nvme :: u64
  src_buf :: "u64 option"
  dest_buf :: "u64 option"
  src_init :: "nat \<Rightarrow> u64"
  dest_data :: "nat \<Rightarrow> u64"
  attach_ok :: bool
  completed_hd :: int
  completed_dh :: int
  nvme_regs :: hardware

definition action_memcpy :: "platform \<Rightarrow> u32 \<Rightarrow> u64 \<Rightarrow> u64 \<Rightarrow> u64 \<Rightarrow> hw_op list" where
  "action_memcpy pf action dest src n =
     [Action_write (ACTION_CONFIG pf) action,
      Action_write (ACTION_DEST_LOW pf) (ucast (dest AND 0xffffffff)),
      Action_write (ACTION_DEST_HIGH pf) (ucast (drop_bit 32 dest)),
      Action_write (ACTION_SRC_LOW pf) (ucast (src AND 0xffffffff)),
      Action_write (ACTION_SRC_HIGH pf) (ucast (drop_bit 32 src)),
      Action_write (ACTION_CNT pf) (ucast n)]"

text \<open>\<open>action_wait_idle\<close>, given what \<open>snap_action_completed\<close> returns: the operations and \<open>!rc\<close>.\<close>

definition action_wait_idle :: "int \<Rightarrow> hw_op list \<times> message list \<times> int" where
  "action_wait_idle completed =
     ([Action_start, Action_completed],
      (if 0 = completed then [Msg_timeout] else []),
      (if completed = 0 then 1 else 0))"

text \<open>The code at \<open>__exit\<close>: \<open>card_free\<close> frees a handle that is not \<open>NULL\<close>.\<close>

definition label_exit :: "environment \<Rightarrow> hw_op list" where
  "label_exit env =
     (if master_h env then [Card_free_master] else []) @
     (if slave_h env then [Card_free_slave] else [])"

text \<open>
  Lines 460 to 541. The result is \<open>None\<close> when \<open>nvme_read_test\<close> does not return within
  \<open>fuel\<close> statements (or a buffer function leaves its buffer, which lemma
  \<open>session_buffers_in_bounds\<close> excludes for a validated configuration). The source buffer
  is taken to hold what \<open>memset_ad\<close> wrote when it is compared. The starting block
  \<open>nvme_lb\<close> of line 501 is only printed at verbosity 1 and has no place in the model,
  as it has none in any call the code makes.
\<close>

definition session :: "platform \<Rightarrow> environment \<Rightarrow> nat \<Rightarrow> config \<Rightarrow> outcome option" where
  "session pf env fuel c =
     (let mem_size = n_blocks c * 512;
          ops_open = [Card_alloc_slave, Card_alloc_master]
      in
      if \<not> slave_h env \<or> \<not> master_h env then
        Some \<lparr>exit_code = - 1, hw_ops = ops_open @ label_exit env, printed = [Msg_card_alloc]\<rparr>
      else
        let ops_ioctl = ops_open @ [Card_ioctl];
            out_nvme = (if 0 = have_nvme env then [Msg_nvme_not_enabled] else [])
        in
        case (src_buf env, dest_buf env) of
          (Some host_src, Some host_dest) \<Rightarrow>
            (case memset_ad (map (src_init env) [0..<unat mem_size div 8]) (nvme_offset c)
                    (sint mem_size) of
               None \<Rightarrow> None
             | Some src \<Rightarrow>
                 let ops_attach = ops_ioctl @ [Attach_action] in
                 if \<not> attach_ok env then
                   Some \<lparr>exit_code = 1, hw_ops = ops_attach @ label_exit env,
                         printed = out_nvme @ [Msg_no_attach]\<rparr>
                 else
                   let (w1, m1, rc1) = action_wait_idle (completed_hd env);
                       ops_hd = ops_attach
                         @ action_memcpy pf (ACTION_CONFIG_COPY_HD pf) 0 host_src (ucast mem_size)
                         @ w1
                   in
                   if rc1 \<noteq> 0 then
                     Some \<lparr>exit_code = rc1, hw_ops = ops_hd @ [Detach_action] @ label_exit env,
                           printed = out_nvme @ m1\<rparr>
                   else
                     (case nvme_read_test (nvme_regs env) (SNAP_M_NVME_OFFSET pf) fuel
                             (drive_no c) (sint (n_blocks c)) 10 of
                        None \<Rightarrow> None
                      | Some s \<Rightarrow>
                          let (w2, m2, rc2) = action_wait_idle (completed_dh env);
                              ops_dh = ops_hd @ trace s
                                @ action_memcpy pf (ACTION_CONFIG_COPY_DH pf) host_dest
                                    (0 + ucast mem_size) (ucast mem_size)
                                @ w2
                          in
                          if rc2 \<noteq> 0 then
                            Some \<lparr>exit_code = rc2,
                                  hw_ops = ops_dh @ [Detach_action] @ label_exit env,
                                  printed = out_nvme @ m1 @ m2\<rparr>
                          else
                            (case memcmp2 (map (dest_data env) [0..<unat mem_size div 8]) src
                                    (sint mem_size) of
                               None \<Rightarrow> None
                             | Some r \<Rightarrow>
                                 Some \<lparr>exit_code = cmp_rc r,
                                       hw_ops = ops_dh @ [Detach_action] @ label_exit env,
                                       printed = out_nvme @ m1 @ m2 @ cmp_out r\<rparr>)))
        | (host_src, host_dest) \<Rightarrow>
            Some \<lparr>exit_code = - 1, hw_ops = ops_ioctl @ label_exit env,
                  printed = out_nvme
                    @ (if host_src = None then [Msg_posix_memalign] else [])
                    @ (if host_dest = None then [Msg_posix_memalign] else [])
                    @ [Msg_no_buffers]\<rparr>)"

definition main :: "platform \<Rightarrow> environment \<Rightarrow> nat \<Rightarrow> cli_option list \<Rightarrow> outcome option" where
  "main pf env fuel opts =
     (case validate opts of
        Inl r \<Rightarrow> Some r
      | Inr c \<Rightarrow> session pf env fuel c)"

text \<open>Two configurations that differ at most in the byte offset.\<close>

definition same_but_offset :: "config \<Rightarrow> config \<Rightarrow> bool" where
  "same_but_offset c1 c2 \<longleftrightarrow>
     verbose_level c1 = verbose_level c2 \<and> card_no c1 = card_no c2 \<and>
     timeout c1 = timeout c2 \<and> drive_no c1 = drive_no c2 \<and>
     n_blocks c1 = n_blocks c2 \<and> irq c1 = irq c2"

text \<open>
  A platform and a world for the closed examples: every resource is granted, both
  copies complete, every NVMe register reads 1 and the destination buffer comes back
  holding the pattern of seed 0. The register numbers are arbitrary.
\<close>

definition sample_platform :: platform where
  "sample_platform =
     \<lparr>SNAP_M_NVME_OFFSET = 0x30000, ACTION_CONFIG = 0x30, ACTION_DEST_LOW = 0x34,
      ACTION_DEST_HIGH = 0x38, ACTION_SRC_LOW = 0x3c, ACTION_SRC_HIGH = 0x40,
      ACTION_CNT = 0x44, ACTION_CONFIG_COPY_HD = 3, ACTION_CONFIG_COPY_DH = 4\<rparr>"

definition sample_environment :: environment where
  "sample_environment =
     \<lparr>slave_h = True, master_h = True, have_nvme = 1,
      src_buf = Some 0x10000, dest_buf = Some 0x20000,
      src_init = (\<lambda>j. 0),
      dest_data = (\<lambda>j. ((8 * of_nat j) AND 0xffffffff) OR push_bit 32 (NOT (8 * of_nat j))),
      attach_ok = True, completed_hd = 1, completed_dh = 1,
      nvme_regs = (\<lambda>k a. 1)\<rparr>"

section \<open>The buffer verifier\<close>

lemma take_Suc_update: "a < length buf \<Longrightarrow> take (Suc a) (buf[a := v]) = take a buf @ [v]"
  by (simp add: take_Suc_conv_app_nth)

lemma memset_ad_loop_fill:
  "a64 + m = length buf \<Longrightarrow> sz = i + 8 * int m \<Longrightarrow>
   memset_ad_loop buf a64 p i sz =
     Some (take a64 buf @
           map (\<lambda>j. ((p + 8 * of_nat j) AND 0xffffffff) OR push_bit 32 (NOT (p + 8 * of_nat j)))
             [0..<m])"
proof (induction m arbitrary: buf a64 p i)
  case 0
  then show ?case by (simp add: memset_ad_loop.simps)
next
  case (Suc m)
  let ?v = "(p AND 0xffffffff) OR push_bit 32 (NOT p)"
  have lt: "a64 < length buf" and isz: "i < sz" using Suc.prems by auto
  have step: "memset_ad_loop buf a64 p i sz =
      memset_ad_loop (buf[a64 := ?v]) (a64 + 1) (p + 8) (i + 8) sz"
    using lt isz by (subst memset_ad_loop.simps) simp
  have ih: "memset_ad_loop (buf[a64 := ?v]) (a64 + 1) (p + 8) (i + 8) sz =
     Some (take (a64 + 1) (buf[a64 := ?v]) @
           map (\<lambda>j. ((p + 8 + 8 * of_nat j) AND 0xffffffff)
                     OR push_bit 32 (NOT (p + 8 + 8 * of_nat j))) [0..<m])"
    by (rule Suc.IH) (use Suc.prems in auto)
  show ?case
    unfolding step ih map_upt_Suc using lt
    by (simp add: take_Suc_update algebra_simps)
qed

lemma memset_ad_words:
  "sz = 8 * int (length a) \<Longrightarrow>
   memset_ad a S sz =
     Some (map (\<lambda>j. ((S + 8 * of_nat j) AND 0xffffffff) OR push_bit 32 (NOT (S + 8 * of_nat j)))
             [0..<length a])"
  unfolding memset_ad_def by (subst memset_ad_loop_fill [where m = "length a"]) auto

lemma memcmp2_loop_equal:
  "a64d = a64s \<Longrightarrow> a64s + m = length src \<Longrightarrow> length dest = length src \<Longrightarrow>
   sz = i + 8 * int m \<Longrightarrow>
   (\<forall>j. a64s \<le> j \<and> j < length src \<longrightarrow> dest ! j = src ! j) \<Longrightarrow>
   memcmp2_loop dest src a64d a64s rc out i sz = Some (memcmp2_exit 0 out sz)"
proof (induction m arbitrary: a64d a64s i)
  case 0
  then show ?case by (simp add: memcmp2_loop.simps)
next
  case (Suc m)
  have "memcmp2_loop dest src a64d a64s rc out i sz =
      memcmp2_loop dest src (a64d + 1) (a64s + 1) rc out (i + 8) sz"
    using Suc.prems by (subst memcmp2_loop.simps) (simp add: Let_def)
  also have "\<dots> = Some (memcmp2_exit 0 out sz)"
    by (rule Suc.IH) (use Suc.prems in auto)
  finally show ?case .
qed

lemma memcmp2_same:
  "sz = 8 * int (length a) \<Longrightarrow> memcmp2 a a sz = Some (memcmp2_exit 0 [] sz)"
  unfolding memcmp2_def by (rule memcmp2_loop_equal [where m = "length a"]) auto

text \<open>The loop when every remaining word differs: with enough of them it leaves by the \<open>goto\<close>.\<close>

lemma memcmp2_loop_cap:
  "length dest = n \<Longrightarrow> length src = n \<Longrightarrow> k + m = n \<Longrightarrow> i = 8 * int k \<Longrightarrow>
   sz = 8 * int n \<Longrightarrow>
   (\<forall>j. k \<le> j \<and> j < n \<longrightarrow> dest ! j \<noteq> src ! j) \<Longrightarrow>
   0 \<le> rc \<Longrightarrow> rc \<le> 10 \<Longrightarrow> d = nat (11 - rc) \<Longrightarrow> d \<le> m \<Longrightarrow>
   memcmp2_loop dest src k k rc out i sz =
     Some (memcmp2_exit 11
            (out @ map (\<lambda>j. Msg_mismatch (8 * int j) (src ! j) (dest ! j)) [k..<k + d])
            (8 * int (k + d - 1)))"
proof (induction m arbitrary: k rc out i d)
  case 0
  then show ?case by simp
next
  case (Suc m)
  have lt: "k < n" and ne: "dest ! k \<noteq> src ! k" using Suc.prems by auto
  show ?case
  proof (cases "rc = 10")
    case True
    then have d1: "d = 1" using Suc.prems by simp
    show ?thesis
      using Suc.prems lt ne True d1
      by (subst memcmp2_loop.simps) (simp add: Let_def)
  next
    case False
    then have rc9: "rc \<le> 9" using Suc.prems by simp
    have step: "memcmp2_loop dest src k k rc out i sz =
       memcmp2_loop dest src (k + 1) (k + 1) (rc + 1)
         (out @ [Msg_mismatch (8 * int k) (src ! k) (dest ! k)]) (i + 8) sz"
      using Suc.prems lt ne rc9 by (subst memcmp2_loop.simps) (simp add: Let_def)
    have ih: "memcmp2_loop dest src (k + 1) (k + 1) (rc + 1)
         (out @ [Msg_mismatch (8 * int k) (src ! k) (dest ! k)]) (i + 8) sz =
       Some (memcmp2_exit 11
            ((out @ [Msg_mismatch (8 * int k) (src ! k) (dest ! k)]) @
              map (\<lambda>j. Msg_mismatch (8 * int j) (src ! j) (dest ! j))
                [k + 1..<k + 1 + (d - 1)])
            (8 * int (k + 1 + (d - 1) - 1)))"
      by (rule Suc.IH) (use Suc.prems rc9 in auto)
    have d2: "2 \<le> d" using Suc.prems rc9 by simp
    then have upt: "[k..<k + d] = k # [k + 1..<k + 1 + (d - 1)]"
      by (simp add: upt_conv_Cons)
    have idx: "k + 1 + (d - 1) - 1 = k + d - 1" using d2 by simp
    show ?thesis unfolding step ih upt idx by simp
  qed
qed

text \<open>The same loop with too few words left to reach the cap: it runs to the end.\<close>

lemma memcmp2_loop_few:
  "length dest = n \<Longrightarrow> length src = n \<Longrightarrow> k + m = n \<Longrightarrow> i = 8 * int k \<Longrightarrow>
   sz = 8 * int n \<Longrightarrow>
   (\<forall>j. k \<le> j \<and> j < n \<longrightarrow> dest ! j \<noteq> src ! j) \<Longrightarrow>
   rc + int m \<le> 10 \<Longrightarrow>
   memcmp2_loop dest src k k rc out i sz =
     Some (memcmp2_exit 0
            (out @ map (\<lambda>j. Msg_mismatch (8 * int j) (src ! j) (dest ! j)) [k..<n]) sz)"
proof (induction m arbitrary: k rc out i)
  case 0
  then show ?case by (simp add: memcmp2_loop.simps)
next
  case (Suc m)
  have lt: "k < n" and ne: "dest ! k \<noteq> src ! k" using Suc.prems by auto
  have step: "memcmp2_loop dest src k k rc out i sz =
     memcmp2_loop dest src (k + 1) (k + 1) (rc + 1)
       (out @ [Msg_mismatch (8 * int k) (src ! k) (dest ! k)]) (i + 8) sz"
    using Suc.prems lt ne by (subst memcmp2_loop.simps) (simp add: Let_def)
  have ih: "memcmp2_loop dest src (k + 1) (k + 1) (rc + 1)
       (out @ [Msg_mismatch (8 * int k) (src ! k) (dest ! k)]) (i + 8) sz =
     Some (memcmp2_exit 0
          ((out @ [Msg_mismatch (8 * int k) (src ! k) (dest ! k)]) @
            map (\<lambda>j. Msg_mismatch (8 * int j) (src ! j) (dest ! j)) [k + 1..<n]) sz)"
    by (rule Suc.IH) (use Suc.prems in auto)
  have upt: "[k..<n] = k # [k + 1..<n]" using lt by (simp add: upt_conv_Cons)
  show ?case unfolding step ih upt by simp
qed

lemma filter_mismatch_map [simp]:
  "filter is_mismatch (map (\<lambda>j. Msg_mismatch (f j) (g j) (h j)) js) =
     map (\<lambda>j. Msg_mismatch (f j) (g j) (h j)) js"
  by (induction js) simp_all

text \<open>What \<open>memcmp2\<close> returns is 0 or 11, never a count in between.\<close>

lemma memcmp2_loop_rc:
  "memcmp2_loop dest src a64d a64s rc out i sz = Some r \<Longrightarrow> rc \<le> 10 \<Longrightarrow>
   cmp_rc r = 0 \<or> cmp_rc r = 11"
proof (induction dest src a64d a64s rc out i sz rule: memcmp2_loop.induct)
  case (1 dest src a64d a64s rc out i sz)
  show ?case
  proof (cases "i < sz \<and> a64d < length dest \<and> a64s < length src")
    case False
    with "1.prems" show ?thesis
      by (subst (asm) memcmp2_loop.simps) (auto simp: memcmp2_exit_def split: if_splits)
  next
    case True
    show ?thesis
    proof (cases "dest ! a64d \<noteq> src ! a64s")
      case ne: True
      show ?thesis
      proof (cases "rc + 1 > 10")
        case True
        with "1.prems" \<open>i < sz \<and> a64d < length dest \<and> a64s < length src\<close> ne
        have "r = memcmp2_exit (rc + 1) (out @ [Msg_mismatch i (src ! a64s) (dest ! a64d)]) i"
          by (subst (asm) memcmp2_loop.simps) (simp add: Let_def)
        with True "1.prems" show ?thesis by (simp add: memcmp2_exit_def)
      next
        case False
        with "1.prems" \<open>i < sz \<and> a64d < length dest \<and> a64s < length src\<close> ne
        have "memcmp2_loop dest src (a64d + 1) (a64s + 1) (rc + 1)
                (out @ [Msg_mismatch i (src ! a64s) (dest ! a64d)]) (i + 8) sz = Some r"
          by (subst (asm) memcmp2_loop.simps) (simp add: Let_def)
        then show ?thesis
          using "1.IH"(1) [OF _ _ refl refl _ refl refl] True ne False by simp
      qed
    next
      case eq: False
      with "1.prems" True
      have "memcmp2_loop dest src (a64d + 1) (a64s + 1) rc out (i + 8) sz = Some r"
        by (subst (asm) memcmp2_loop.simps) (simp add: Let_def)
      then show ?thesis
        using "1.IH"(2) [OF _ _ refl refl] True eq "1.prems"(2) by simp
    qed
  qed
qed

lemma memcmp2_returns_0_or_11:
  "memcmp2 dest src sz = Some r \<Longrightarrow> cmp_rc r = 0 \<or> cmp_rc r = 11"
  unfolding memcmp2_def by (erule memcmp2_loop_rc) simp

text \<open>
  C1. The claim: \<open>memcmp2\<close> returns 0 for equal buffers and otherwise the number of
  mismatching words (capped at 11), so its result is not 0 whenever a word differs. The
  code: the statement \<open>rc = 0\<close> of line 147 follows the loop, so a scan that reaches the
  end of the buffers returns 0 whatever it counted. Two buffers of one block (512 bytes,
  64 words) that differ in their first word: the mismatch is printed, the whole buffer
  is scanned and 0 is returned.
\<close>

theorem memcmp2_one_mismatch_returns_0:
  "memcmp2 (1 # replicate 63 0) (replicate 64 0) 512 =
     Some \<lparr>cmp_rc = 0, cmp_out = [Msg_mismatch 0 0 1], cmp_i = 512\<rparr>"
  by code_simp

text \<open>
  C6, as the code has it. For two buffers of \<open>n\<close> words each that differ in every word,
  \<open>memcmp2\<close> prints one mismatch line for each of the first \<open>min n 11\<close> words, in order,
  and no other; with 11 words or more it leaves the loop at the 11th word (\<open>i = 80\<close>),
  comparing no word after it, and returns 11; with fewer than 11 words it compares all of
  them (\<open>i\<close> reaches \<open>8 * n\<close>).
\<close>

theorem memcmp2_every_word_differs:
  assumes "length dest = n" and "length src = n"
    and "\<forall>j. j < n \<longrightarrow> dest ! j \<noteq> src ! j"
  shows "\<exists>r. memcmp2 dest src (8 * int n) = Some r \<and>
           filter is_mismatch (cmp_out r) =
             map (\<lambda>j. Msg_mismatch (8 * int j) (src ! j) (dest ! j)) [0..<min n 11] \<and>
           (11 \<le> n \<longrightarrow> cmp_rc r = 11 \<and> cmp_i r = 80) \<and>
           (n < 11 \<longrightarrow> cmp_i r = 8 * int n)"
proof (cases "11 \<le> n")
  case True
  have "memcmp2 dest src (8 * int n) =
      Some (memcmp2_exit 11
             ([] @ map (\<lambda>j. Msg_mismatch (8 * int j) (src ! j) (dest ! j)) [0..<0 + 11])
             (8 * int (0 + 11 - 1)))"
    unfolding memcmp2_def
    by (rule memcmp2_loop_cap [where n = n and m = n]) (use assms True in auto)
  with True show ?thesis by (simp add: memcmp2_exit_def min_def)
next
  case False
  have "memcmp2 dest src (8 * int n) =
      Some (memcmp2_exit 0
             ([] @ map (\<lambda>j. Msg_mismatch (8 * int j) (src ! j) (dest ! j)) [0..<n])
             (8 * int n))"
    unfolding memcmp2_def
    by (rule memcmp2_loop_few [where n = n and m = n]) (use assms False in auto)
  with False show ?thesis by (simp add: memcmp2_exit_def min_def)
qed

theorem memcmp2_every_word_differs_witness:
  "\<exists>r. memcmp2 (replicate 12 1) (replicate 12 0) 96 = Some r \<and>
       filter is_mismatch (cmp_out r) =
         map (\<lambda>j. Msg_mismatch (8 * int j) 0 1) [0..<11] \<and>
       cmp_rc r = 11 \<and> cmp_i r = 80"
proof -
  have "\<forall>j. j < 12 \<longrightarrow> replicate 12 (1::u64) ! j \<noteq> replicate 12 0 ! j"
    by simp
  from memcmp2_every_word_differs [OF _ _ this]
  obtain r where r: "memcmp2 (replicate 12 1) (replicate 12 0) (8 * int 12) = Some r"
    "filter is_mismatch (cmp_out r) =
       map (\<lambda>j. Msg_mismatch (8 * int j) (replicate 12 0 ! j) (replicate 12 1 ! j))
         [0..<min 12 11]"
    "cmp_rc r = 11" "cmp_i r = 80"
    by auto
  have "map (\<lambda>j. Msg_mismatch (8 * int j) (replicate 12 (0::u64) ! j) (replicate 12 (1::u64) ! j))
          [0..<min 12 11] = map (\<lambda>j. Msg_mismatch (8 * int j) 0 1) [0..<11]"
    by (rule map_cong) auto
  with r show ?thesis by (intro exI [of _ r]) simp
qed

text \<open>
  The claim C6 as stated fails at two 12-word buffers that differ in every word: 11
  lines are printed, not 10, and the scan stops at the 11th word (\<open>i = 80\<close>) of a buffer
  of 96 bytes.
\<close>

theorem memcmp2_twelve_words_counterexample:
  "memcmp2 (replicate 12 1) (replicate 12 0) 96 =
     Some \<lparr>cmp_rc = 11,
           cmp_out = [Msg_mismatch 0 0 1, Msg_mismatch 8 0 1, Msg_mismatch 16 0 1,
                      Msg_mismatch 24 0 1, Msg_mismatch 32 0 1, Msg_mismatch 40 0 1,
                      Msg_mismatch 48 0 1, Msg_mismatch 56 0 1, Msg_mismatch 64 0 1,
                      Msg_mismatch 72 0 1, Msg_mismatch 80 0 1, Msg_newline],
           cmp_i = 80\<rparr>"
  by code_simp

text \<open>
  C7. For every seed \<open>S\<close> and every buffer of \<open>n\<close> words (\<open>N = 8 * n\<close> bytes), \<open>memset_ad\<close>
  writes word \<open>i\<close> as \<open>((S + 8 * i) & 0xffffffff) | (~(S + 8 * i) << 32)\<close>, the sum taken
  in 64 bits; the result does not depend on what the buffer held before, and \<open>memcmp2\<close>
  of two buffers filled with the same seed returns 0 and prints nothing.
\<close>

theorem memset_ad_pattern:
  assumes "length a = n" and "length b = n"
  shows "memset_ad a S (8 * int n) =
           Some (map (\<lambda>i. ((S + 8 * of_nat i) AND 0xffffffff) OR push_bit 32 (NOT (S + 8 * of_nat i)))
                   [0..<n]) \<and>
         memset_ad b S (8 * int n) = memset_ad a S (8 * int n) \<and>
         (\<exists>r. memcmp2 (the (memset_ad a S (8 * int n))) (the (memset_ad b S (8 * int n)))
                 (8 * int n) = Some r \<and> cmp_rc r = 0 \<and> cmp_out r = [])"
proof -
  let ?w = "map (\<lambda>i. ((S + 8 * of_nat i) AND 0xffffffff) OR push_bit 32 (NOT (S + 8 * of_nat i)))
              [0..<n]"
  have a: "memset_ad a S (8 * int n) = Some ?w"
    using assms(1) by (simp add: memset_ad_words)
  have b: "memset_ad b S (8 * int n) = Some ?w"
    using assms(2) by (simp add: memset_ad_words)
  have "memcmp2 ?w ?w (8 * int n) = Some (memcmp2_exit 0 [] (8 * int n))"
    by (rule memcmp2_same) simp
  then show ?thesis
    unfolding a b by (simp add: memcmp2_exit_def)
qed

theorem memset_ad_pattern_witness:
  "memset_ad [0, 0, 0] 0x1000 24 =
     Some [0xFFFFEFFF00001000, 0xFFFFEFF700001008, 0xFFFFEFEF00001010] \<and>
   memset_ad [5, 6, 7] 0x1000 24 = memset_ad [0, 0, 0] 0x1000 24 \<and>
   (\<exists>r. memcmp2 (the (memset_ad [0, 0, 0] 0x1000 24)) (the (memset_ad [5, 6, 7] 0x1000 24)) 24
           = Some r \<and> cmp_rc r = 0 \<and> cmp_out r = [])"
proof -
  have len: "length [5, 6, 7 :: u64] = length [0, 0, 0 :: u64]"
    by simp
  note t = memset_ad_pattern [OF refl len, of "0x1000"]
  have a: "memset_ad [0, 0, 0] 0x1000 24 =
      Some [0xFFFFEFFF00001000, 0xFFFFEFF700001008, 0xFFFFEFEF00001010]"
    using t by (elim conjE) (simp add: upt_rec)
  have b: "memset_ad [5, 6, 7] 0x1000 24 = memset_ad [0, 0, 0] 0x1000 24"
    using t by (elim conjE) simp
  have c: "\<exists>r. memcmp2 (the (memset_ad [0, 0, 0] 0x1000 24))
                (the (memset_ad [5, 6, 7] 0x1000 24)) 24 = Some r \<and>
              cmp_rc r = 0 \<and> cmp_out r = []"
    using t by (elim conjE) simp
  from a b c show ?thesis by (intro conjI)
qed

section \<open>The queue submitter\<close>

lemmas reg_defs = DPTR_LOW_def DPTR_HIGH_def LBA_LOW_def LBA_HIGH_def LBA_NUM_def COMMAND_REG_def
  STATUS_REG_def TRACK_REG_def

lemmas step_defs = nvme_step_def nvme_mmio_read_def nvme_mmio_write_def Let_def

lemmas const_defs = ssd_ioq_full_def cmd_reg_def SUB_Q_FULL_SSD0_IO_def SUB_Q_FULL_SSD1_IO_def
  CMD_QUEUE_ID_SSD0_IOQ_def CMD_QUEUE_ID_SSD1_IOQ_def CMD_ACTION_ID_def

lemma reg_distinct [simp]:
  "DPTR_HIGH \<noteq> DPTR_LOW" "LBA_HIGH \<noteq> DPTR_LOW" "LBA_NUM \<noteq> DPTR_LOW" "LBA_LOW \<noteq> DPTR_LOW"
  "COMMAND_REG \<noteq> DPTR_LOW"
  "DPTR_HIGH \<noteq> LBA_LOW" "LBA_HIGH \<noteq> LBA_LOW" "LBA_NUM \<noteq> LBA_LOW" "DPTR_LOW \<noteq> LBA_LOW"
  "COMMAND_REG \<noteq> LBA_LOW"
  "DPTR_HIGH \<noteq> COMMAND_REG" "LBA_HIGH \<noteq> COMMAND_REG" "LBA_NUM \<noteq> COMMAND_REG"
  "DPTR_LOW \<noteq> COMMAND_REG" "LBA_LOW \<noteq> COMMAND_REG"
  "TRACK_REG \<noteq> STATUS_REG" "STATUS_REG \<noteq> TRACK_REG"
  by (simp_all add: reg_defs)

lemma nvme_exec_Suc:
  "nvme_exec hw base drive blocks nmax (Suc k) =
     nvme_step hw base drive blocks nmax (nvme_exec hw base drive blocks nmax k)"
  by (simp add: nvme_exec_def)

lemma nvme_exec_0: "nvme_exec hw base drive blocks nmax 0 = nvme_entry"
  by (simp add: nvme_exec_def)

text \<open>A run that returns is an execution that has reached \<open>return\<close>.\<close>

lemma nvme_run_exec:
  "nvme_run hw base drive blocks nmax fuel s = Some s' \<Longrightarrow>
   \<exists>k. s' = (nvme_step hw base drive blocks nmax ^^ k) s \<and> pc s' = L328"
proof (induction fuel arbitrary: s)
  case 0
  then have "s' = s \<and> pc s' = L328" by (auto simp: nvme_run.simps split: if_splits)
  then show ?case by (intro exI [of _ 0]) auto
next
  case (Suc fuel)
  show ?case
  proof (cases "pc s = L328")
    case True
    with Suc.prems have "s' = s" by (simp add: nvme_run.simps)
    with True show ?thesis by (intro exI [of _ 0]) simp
  next
    case False
    with Suc.prems
    have "nvme_run hw base drive blocks nmax fuel (nvme_step hw base drive blocks nmax s) = Some s'"
      by (simp add: nvme_run.simps)
    from Suc.IH [OF this] obtain k where
      "s' = (nvme_step hw base drive blocks nmax ^^ k) (nvme_step hw base drive blocks nmax s)"
      "pc s' = L328"
      by blast
    then show ?thesis by (intro exI [of _ "Suc k"]) (simp add: funpow_swap1)
  qed
qed

lemma nvme_read_test_exec:
  "nvme_read_test hw base fuel drive blocks nmax = Some s \<Longrightarrow>
   \<exists>k. s = nvme_exec hw base drive blocks nmax k \<and> pc s = L328"
  unfolding nvme_read_test_def nvme_exec_def by (rule nvme_run_exec)

text \<open>
  The function need not return: while the status register keeps the queue-full bit set,
  the wait of line 304 goes on, whatever the number of statements allowed.
\<close>

lemma nvme_run_queue_always_full:
  "pc s = L298 \<or> pc s = L299 \<or> pc s = L300 \<or> pc s = L301 \<or> pc s = L302 \<or> pc s = L304 \<Longrightarrow>
   pc s = L302 \<longrightarrow> n_idx s < nmax \<Longrightarrow> 0 < nmax \<Longrightarrow>
   nvme_run (\<lambda>k a. ssd_ioq_full drive) base drive blocks nmax fuel s = None"
proof (induction fuel arbitrary: s)
  case 0
  then show ?case by (auto simp: nvme_run.simps)
next
  case (Suc fuel)
  let ?s' = "nvme_step (\<lambda>k a. ssd_ioq_full drive) base drive blocks nmax s"
  have full: "ssd_ioq_full drive \<noteq> 0"
    by (simp add: ssd_ioq_full_def SUB_Q_FULL_SSD0_IO_def SUB_Q_FULL_SSD1_IO_def)
  have a: "pc ?s' = L298 \<or> pc ?s' = L299 \<or> pc ?s' = L300 \<or> pc ?s' = L301 \<or> pc ?s' = L302
      \<or> pc ?s' = L304"
    using Suc.prems full by (auto simp: nvme_step_def nvme_mmio_read_def nvme_mmio_write_def Let_def)
  have b: "pc ?s' = L302 \<longrightarrow> n_idx ?s' < nmax"
    using Suc.prems full by (auto simp: nvme_step_def nvme_mmio_read_def nvme_mmio_write_def Let_def)
  have "nvme_run (\<lambda>k a. ssd_ioq_full drive) base drive blocks nmax fuel ?s' = None"
    by (rule Suc.IH [OF a b Suc.prems(3)])
  then show ?case
    using Suc.prems(1) by (subst nvme_run.simps) auto
qed

lemma nvme_read_test_may_not_return:
  "0 < nmax \<Longrightarrow> nvme_read_test (\<lambda>k a. ssd_ioq_full drive) base fuel drive blocks nmax = None"
  unfolding nvme_read_test_def
  by (rule nvme_run_queue_always_full) (simp_all add: nvme_entry_def)

subsection \<open>The in-flight counter\<close>

lemma qin_inv_entry: "qin_inv nmax nvme_entry"
  by (simp add: qin_inv_def nvme_entry_def)

lemma qin_inv_step: "qin_inv nmax s \<Longrightarrow> qin_inv nmax (nvme_step hw base drive blocks nmax s)"
  by (cases "pc s") (auto simp: qin_inv_def step_defs)

lemma qin_inv_exec: "qin_inv nmax (nvme_exec hw base drive blocks nmax k)"
  by (induction k) (simp_all add: nvme_exec_0 nvme_exec_Suc qin_inv_entry qin_inv_step)

text \<open>The two C \<open>int\<close>s stay in range: no statement of the function overflows.\<close>

lemma nvme_exec_qin_range:
  "0 \<le> n_idx (nvme_exec hw base drive blocks nmax k) \<and>
   n_idx (nvme_exec hw base drive blocks nmax k) \<le> max 0 nmax \<and>
   - 1 \<le> qin (nvme_exec hw base drive blocks nmax k) \<and>
   qin (nvme_exec hw base drive blocks nmax k) \<le> n_idx (nvme_exec hw base drive blocks nmax k) + 1"
  using qin_inv_exec [of nmax hw base drive blocks k]
  by (cases "pc (nvme_exec hw base drive blocks nmax k)") (auto simp: qin_inv_def)

text \<open>
  C2, as the code has it. At every point of every execution, whatever the registers
  return, \<open>qin\<close> is at least \<open>-1\<close>; it is at least 0 at every point except between the
  decrement of line 312 and the increment of line 317 (control at lines 314 to 317).
\<close>

theorem qin_at_least_minus_one:
  "- 1 \<le> qin (nvme_exec hw base drive blocks nmax k) \<and>
   (pc (nvme_exec hw base drive blocks nmax k) \<notin> {L314, L315, L316, L317}
      \<longrightarrow> 0 \<le> qin (nvme_exec hw base drive blocks nmax k))"
  using qin_inv_exec [of nmax hw base drive blocks k]
  by (cases "pc (nvme_exec hw base drive blocks nmax k)") (auto simp: qin_inv_def)

theorem qin_at_least_minus_one_witness:
  "pc (nvme_exec (\<lambda>k a. 1) 0 0 1 10 12) \<notin> {L314, L315, L316, L317} \<and>
   - 1 \<le> qin (nvme_exec (\<lambda>k a. 1) 0 0 1 10 12) \<and>
   0 \<le> qin (nvme_exec (\<lambda>k a. 1) 0 0 1 10 12)"
proof -
  have "pc (nvme_exec (\<lambda>k a. 1) 0 0 1 10 12) = L318"
    by (simp add: nvme_exec_def eval_nat_numeral step_defs nvme_entry_def reg_defs const_defs)
  then have "pc (nvme_exec (\<lambda>k a. 1) 0 0 1 10 12) \<notin> {L314, L315, L316, L317}"
    by simp
  moreover note qin_at_least_minus_one [of "\<lambda>k a. 1" 0 0 1 10 12]
  ultimately show ?thesis
    by (elim conjE impE) (assumption, intro conjI)
qed

text \<open>
  The claim C2 as stated fails when the first read of the track register returns a
  value above 0 (here every register reads 1, drive 0, the ten commands of \<open>main\<close>):
  after 8 statements control is at line 314 and \<open>qin\<close> is \<open>-1\<close>.
\<close>

theorem qin_negative_counterexample:
  "pc (nvme_exec (\<lambda>k a. 1) 0 0 1 10 8) = L314 \<and> qin (nvme_exec (\<lambda>k a. 1) 0 0 1 10 8) = - 1"
  by (simp add: nvme_exec_def eval_nat_numeral step_defs nvme_entry_def reg_defs const_defs)

text \<open>
  C3. Whenever \<open>nvme_read_test\<close> returns, \<open>qin\<close> is 0. The drain loop: at its head
  (line 322) it goes on to \<open>return\<close> exactly when \<open>qin\<close> is 0; one poll (lines 324 to
  326) reads the track register once and takes 1 from \<open>qin\<close> if the value read is above
  0, nothing otherwise.
\<close>

theorem nvme_read_test_returns_drained:
  "(nvme_read_test hw base fuel drive blocks nmax = Some s \<longrightarrow> qin s = 0) \<and>
   (pc t = L322 \<longrightarrow>
      pc (nvme_step hw base drive blocks nmax t) = (if qin t \<noteq> 0 then L324 else L328)) \<and>
   (pc u = L324 \<longrightarrow>
      pc ((nvme_step hw base drive blocks nmax ^^ 2) u) = L322 \<and>
      qin ((nvme_step hw base drive blocks nmax ^^ 2) u) =
        (if hw (reads u) (TRACK_REG + base) > 0 then qin u - 1 else qin u) \<and>
      trace ((nvme_step hw base drive blocks nmax ^^ 2) u) =
        trace u @ [Nvme_read (TRACK_REG + base) (hw (reads u) (TRACK_REG + base))])"
proof (intro conjI impI)
  assume "nvme_read_test hw base fuel drive blocks nmax = Some s"
  then obtain k where "s = nvme_exec hw base drive blocks nmax k" "pc s = L328"
    using nvme_read_test_exec by blast
  then show "qin s = 0"
    using qin_inv_exec [of nmax hw base drive blocks k] by (simp add: qin_inv_def)
next
  assume "pc t = L322"
  then show "pc (nvme_step hw base drive blocks nmax t) = (if qin t \<noteq> 0 then L324 else L328)"
    by (simp add: step_defs)
next
  assume u: "pc u = L324"
  let ?v = "hw (reads u) (TRACK_REG + base)"
  let ?u1 = "u\<lparr>val32 := ?v, reads := Suc (reads u),
                trace := trace u @ [Nvme_read (TRACK_REG + base) ?v], pc := L325\<rparr>"
  have s1: "nvme_step hw base drive blocks nmax u = ?u1"
    using u by (simp add: step_defs)
  have s2: "nvme_step hw base drive blocks nmax ?u1 =
      ?u1\<lparr>qin := (if ?v > 0 then qin u - 1 else qin u), pc := L322\<rparr>"
    by (simp add: step_defs)
  have two: "(nvme_step hw base drive blocks nmax ^^ 2) u =
      ?u1\<lparr>qin := (if ?v > 0 then qin u - 1 else qin u), pc := L322\<rparr>"
  proof -
    have "(nvme_step hw base drive blocks nmax ^^ 2) u =
        nvme_step hw base drive blocks nmax (nvme_step hw base drive blocks nmax u)"
      by (simp add: eval_nat_numeral)
    then show ?thesis by (simp only: s1 s2)
  qed
  show "pc ((nvme_step hw base drive blocks nmax ^^ 2) u) = L322"
    unfolding two by simp
  show "qin ((nvme_step hw base drive blocks nmax ^^ 2) u) = (if ?v > 0 then qin u - 1 else qin u)"
    unfolding two by simp
  show "trace ((nvme_step hw base drive blocks nmax ^^ 2) u) =
      trace u @ [Nvme_read (TRACK_REG + base) ?v]"
    unfolding two by simp
qed

theorem nvme_read_test_returns_drained_witness:
  "(\<exists>s. nvme_read_test (\<lambda>k a. 1) 0 20 0 1 1 = Some s \<and> qin s = 0) \<and>
   pc (nvme_entry\<lparr>pc := L322, qin := 2\<rparr>) = L322 \<and>
   pc (nvme_step (\<lambda>k a. 1) 0 0 1 1 (nvme_entry\<lparr>pc := L322, qin := 2\<rparr>)) = L324 \<and>
   pc (nvme_entry\<lparr>pc := L324, qin := 2\<rparr>) = L324 \<and>
   qin ((nvme_step (\<lambda>k a. 1) 0 0 1 1 ^^ 2) (nvme_entry\<lparr>pc := L324, qin := 2\<rparr>)) = 1"
proof -
  have "map_option pc (nvme_read_test (\<lambda>k a. 1) 0 20 0 1 1) = Some L328"
    by code_simp
  then obtain s where s: "nvme_read_test (\<lambda>k a. 1) 0 20 0 1 1 = Some s"
    by auto
  note inst = nvme_read_test_returns_drained [of "\<lambda>k a. 1" 0 20 0 1 1 s
      "nvme_entry\<lparr>pc := L322, qin := 2\<rparr>" "nvme_entry\<lparr>pc := L324, qin := 2\<rparr>"]
  have a: "\<exists>s. nvme_read_test (\<lambda>k a. 1) 0 20 0 1 1 = Some s \<and> qin s = 0"
    using s inst by blast
  have b: "pc (nvme_step (\<lambda>k a. 1) 0 0 1 1 (nvme_entry\<lparr>pc := L322, qin := 2\<rparr>)) = L324"
    using inst by simp
  have c: "qin ((nvme_step (\<lambda>k a. 1) 0 0 1 1 ^^ 2) (nvme_entry\<lparr>pc := L324, qin := 2\<rparr>)) = 1"
    using inst by simp
  from a b c show ?thesis by simp
qed

subsection \<open>Backpressure\<close>

lemma bp_inv_entry: "bp_inv full base nvme_entry"
  by (simp add: bp_inv_def nvme_entry_def)

lemma bp_inv_step:
  "bp_inv (ssd_ioq_full drive) base s \<Longrightarrow>
   bp_inv (ssd_ioq_full drive) base (nvme_step hw base drive blocks nmax s)"
  by (cases "pc s") (auto simp: bp_inv_def step_defs backpressure_step_def)

lemma bp_inv_exec: "bp_inv (ssd_ioq_full drive) base (nvme_exec hw base drive blocks nmax k)"
  by (induction k) (simp_all add: nvme_exec_0 nvme_exec_Suc bp_inv_entry bp_inv_step)

text \<open>The monitor does refuse a submission that follows a status read with the bit set.\<close>

lemma submissions_guarded_refuses:
  "\<not> submissions_guarded 2 0 [Nvme_read STATUS_REG 2, Nvme_write COMMAND_REG v]"
  by (simp add: submissions_guarded_def backpressure_step_def)

text \<open>
  C4. In every execution, whatever the registers return, every write of the command
  register is preceded, after the previous such write, by a read of the status register
  that found the queue-full bit of the selected queue clear, and that read is the latest
  read of the status register: no submission is made while the status last seen has the
  bit set. The bit is bit 1 (\<open>0x02\<close>) for drive 0 and bit 3 (\<open>0x08\<close>) for drive 1.
\<close>

theorem submissions_wait_for_queue_not_full:
  "submissions_guarded (ssd_ioq_full drive) base (trace (nvme_exec hw base drive blocks nmax k)) \<and>
   ssd_ioq_full 0 = 0x02 \<and> ssd_ioq_full 1 = 0x08"
  using bp_inv_exec [of drive base hw blocks nmax k]
  by (simp add: bp_inv_def submissions_guarded_def Let_def const_defs)

theorem submissions_wait_for_queue_not_full_witness:
  "submissions_guarded (ssd_ioq_full 0) 0
     (trace (nvme_exec (\<lambda>k a. if k < 3 then 2 else 0) 0 0 1 10 14)) \<and>
   trace (nvme_exec (\<lambda>k a. if k < 3 then 2 else 0) 0 0 1 10 14) =
     [Nvme_write 4 2, Nvme_write 12 0, Nvme_write 16 1,
      Nvme_read 0 2, Nvme_read 0 2, Nvme_read 0 2, Nvme_read 0 0, Nvme_read 4 0,
      Nvme_write 0 0, Nvme_write 8 0, Nvme_write 20 0xef10]"
proof -
  have "trace (nvme_exec (\<lambda>k a. if k < 3 then 2 else 0) 0 0 1 10 14) =
     [Nvme_write 4 2, Nvme_write 12 0, Nvme_write 16 1,
      Nvme_read 0 2, Nvme_read 0 2, Nvme_read 0 2, Nvme_read 0 0, Nvme_read 4 0,
      Nvme_write 0 0, Nvme_write 8 0, Nvme_write 20 0xef10]"
    by (simp add: nvme_exec_def eval_nat_numeral step_defs nvme_entry_def reg_defs const_defs)
  with submissions_wait_for_queue_not_full [of 0 0 "\<lambda>k a. if k < 3 then 2 else 0" 1 10 14]
  show ?thesis by blast
qed

subsection \<open>The opportunistic drain\<close>

lemma track_inv_entry: "track_inv base nvme_entry"
  by (simp add: track_inv_def nvme_entry_def)

lemma track_inv_step:
  "track_inv base s \<Longrightarrow> track_inv base (nvme_step hw base drive blocks nmax s)"
  by (cases "pc s") (auto simp: track_inv_def step_defs track_step_def)

lemma track_inv_exec: "track_inv base (nvme_exec hw base drive blocks nmax k)"
  by (induction k) (simp_all add: nvme_exec_0 nvme_exec_Suc track_inv_entry track_inv_step)

lemma one_track_read_refuses:
  "\<not> one_track_read_per_submission 0 [Nvme_read TRACK_REG 1, Nvme_read TRACK_REG 1,
       Nvme_write COMMAND_REG v]"
  by (simp add: one_track_read_per_submission_def track_step_def)

lemma iteration_from_L309:
  assumes "pc s = L309"
  shows "pc ((nvme_step hw base drive blocks nmax ^^ 5) s) = L317 \<and>
         qin ((nvme_step hw base drive blocks nmax ^^ 5) s) =
           (if hw (reads s) (TRACK_REG + base) > 0 then qin s - 1 else qin s) \<and>
         trace ((nvme_step hw base drive blocks nmax ^^ 5) s) =
           trace s @ [Nvme_read (TRACK_REG + base) (hw (reads s) (TRACK_REG + base)),
                      Nvme_write (DPTR_LOW + base) (dptr_low s),
                      Nvme_write (LBA_LOW + base) (lba_low s),
                      Nvme_write (COMMAND_REG + base) (cmd_reg drive)]"
proof -
  define v where "v = hw (reads s) (TRACK_REG + base)"
  define f where "f = nvme_step hw base drive blocks nmax"
  let ?s1 = "s\<lparr>val32 := v, reads := Suc (reads s),
               trace := trace s @ [Nvme_read (TRACK_REG + base) v], pc := L310\<rparr>"
  have s1: "f s = ?s1"
    using assms(1) by (simp add: f_def v_def step_defs)
  let ?s2 = "?s1\<lparr>qin := (if v > 0 then qin s - 1 else qin s), pc := L314\<rparr>"
  have s2: "f ?s1 = ?s2"
    by (simp add: f_def step_defs)
  let ?s3 = "?s2\<lparr>trace := trace ?s2 @ [Nvme_write (DPTR_LOW + base) (dptr_low s)], pc := L315\<rparr>"
  have s3: "f ?s2 = ?s3"
    by (simp add: f_def step_defs)
  let ?s4 = "?s3\<lparr>trace := trace ?s3 @ [Nvme_write (LBA_LOW + base) (lba_low s)], pc := L316\<rparr>"
  have s4: "f ?s3 = ?s4"
    by (simp add: f_def step_defs)
  let ?s5 = "?s4\<lparr>trace := trace ?s4 @ [Nvme_write (COMMAND_REG + base) (cmd_reg drive)],
                 pc := L317\<rparr>"
  have s5: "f ?s4 = ?s5"
    by (simp add: f_def step_defs)
  have "(f ^^ 5) s = f (f (f (f (f s))))"
    by (simp add: eval_nat_numeral)
  then have "(f ^^ 5) s = ?s5"
    by (simp only: s1 s2 s3 s4 s5)
  then show ?thesis unfolding f_def [symmetric] v_def [symmetric] by simp
qed

text \<open>
  C5. In every execution exactly one read of the track register lies between one
  submission and the next (and before the first). From line 309, where it is made, the
  next five statements up to the write of the command register read the track register
  once and no other register, and \<open>qin\<close> loses 1 if the value read is above 0 and stays
  as it is otherwise, whatever the size of the value.
\<close>

theorem track_read_once_per_iteration:
  "one_track_read_per_submission base (trace (nvme_exec hw base drive blocks nmax k)) \<and>
   (pc s = L309 \<longrightarrow>
      pc ((nvme_step hw base drive blocks nmax ^^ 5) s) = L317 \<and>
      qin ((nvme_step hw base drive blocks nmax ^^ 5) s) =
        (if hw (reads s) (TRACK_REG + base) > 0 then qin s - 1 else qin s) \<and>
      trace ((nvme_step hw base drive blocks nmax ^^ 5) s) =
        trace s @ [Nvme_read (TRACK_REG + base) (hw (reads s) (TRACK_REG + base)),
                   Nvme_write (DPTR_LOW + base) (dptr_low s),
                   Nvme_write (LBA_LOW + base) (lba_low s),
                   Nvme_write (COMMAND_REG + base) (cmd_reg drive)])"
proof (intro conjI impI)
  show "one_track_read_per_submission base (trace (nvme_exec hw base drive blocks nmax k))"
    using track_inv_exec [of base hw drive blocks nmax k]
    by (simp add: track_inv_def one_track_read_per_submission_def Let_def)
qed (simp_all add: iteration_from_L309)

theorem track_read_once_per_iteration_witness:
  "one_track_read_per_submission 0 (trace (nvme_exec (\<lambda>k a. 7) 0 0 1 10 14)) \<and>
   pc (nvme_entry\<lparr>pc := L309, qin := 3\<rparr>) = L309 \<and>
   pc ((nvme_step (\<lambda>k a. 7) 0 0 1 10 ^^ 5) (nvme_entry\<lparr>pc := L309, qin := 3\<rparr>)) = L317 \<and>
   qin ((nvme_step (\<lambda>k a. 7) 0 0 1 10 ^^ 5) (nvme_entry\<lparr>pc := L309, qin := 3\<rparr>)) = 2"
  using track_read_once_per_iteration [of 0 "\<lambda>k a. 7" 0 1 10 14 "nvme_entry\<lparr>pc := L309, qin := 3\<rparr>"]
  by simp

subsection \<open>The addresses of the burst\<close>

lemma burst_inv_entry: "burst_inv base blocks nvme_entry"
  by (simp add: burst_inv_def nvme_entry_def dptr_low_writes_def lba_low_writes_def
      dptr_pending_def lba_pending_def)

lemma nat_plus_one: "0 \<le> n \<Longrightarrow> nat (n + 1) = Suc (nat n)"
  by simp

lemma burst_inv_step:
  "burst_inv base blocks s \<Longrightarrow> burst_inv base blocks (nvme_step hw base drive blocks nmax s)"
  by (cases "pc s")
     (auto simp: burst_inv_def step_defs dptr_low_writes_def lba_low_writes_def
        dptr_pending_def lba_pending_def nat_plus_one ring_distribs)

lemma burst_inv_exec: "burst_inv base blocks (nvme_exec hw base drive blocks nmax k)"
  by (induction k) (simp_all add: nvme_exec_0 nvme_exec_Suc burst_inv_entry burst_inv_step)

lemma nvme_read_test_burst:
  assumes "nvme_read_test hw base fuel drive blocks nmax = Some s"
  shows "dptr_low_writes base (trace s) =
           map (\<lambda>j. word_of_int (512 * blocks * int j)) [0..<nat nmax] \<and>
         lba_low_writes base (trace s) =
           map (\<lambda>j. word_of_int (blocks * int j)) [0..<nat nmax]"
proof -
  from assms obtain k where k: "s = nvme_exec hw base drive blocks nmax k" "pc s = L328"
    using nvme_read_test_exec by blast
  have "n_idx s = max 0 nmax"
    using qin_inv_exec [of nmax hw base drive blocks k] k by (simp add: qin_inv_def)
  then have "nat (n_idx s) = nat nmax" by (simp add: max_def)
  then show ?thesis
    using burst_inv_exec [of base blocks hw drive nmax k] k
    by (simp add: burst_inv_def dptr_pending_def lba_pending_def)
qed

section \<open>The session driver\<close>

subsection \<open>Word arithmetic of the checks\<close>

lemma and_1ff_iff: "((v::u64) AND 0x1ff = 0) \<longleftrightarrow> 512 dvd unat v"
proof -
  have m: "(0x1ff :: u64) = mask 9" by (simp add: mask_eq_exp_minus_1)
  have "v AND mask 9 = 0 \<longleftrightarrow> 2 ^ 9 dvd unat v"
    using and_mask_dvd_nat by blast
  then show ?thesis unfolding m by simp
qed

lemma blocks_mem_size:
  fixes b :: u32
  assumes "unat b \<le> 65536"
  shows "unat (b * 512) = 512 * unat b"
  using assms by (simp add: unat_word_ariths)

lemma sint_small:
  fixes w :: u32
  assumes "unat w < 2147483648"
  shows "sint w = int (unat w)"
proof -
  have u: "uint w = int (unat w)"
    by (rule uint_nat)
  have "sint w = signed_take_bit (LENGTH(32) - Suc 0) (uint w)"
    by (rule sint_uint)
  also have "\<dots> = signed_take_bit 31 (int (unat w))"
    by (simp only: u) simp
  also have "\<dots> = int (unat w)"
  proof (rule signed_take_bit_int_eq_self)
    show "- (2 ^ 31) \<le> int (unat w)" by (rule order_trans [of _ 0]) simp_all
    have "int (unat w) < 2147483648" using assms by linarith
    then show "int (unat w) < 2 ^ 31" by (simp only: power_numeral) simp
  qed
  finally show ?thesis .
qed

lemma blocks_mem_size_sint:
  fixes b :: u32
  assumes "unat b \<le> 65536"
  shows "sint (b * 512) = 512 * int (unat b)"
proof -
  have "unat (b * 512) < 2147483648"
    using assms by (simp add: blocks_mem_size)
  then have "sint (b * 512) = int (unat (b * 512))"
    by (rule sint_small)
  then show ?thesis
    by (simp add: blocks_mem_size [OF assms])
qed

lemma blocks_sint:
  fixes b :: u32
  assumes "unat b \<le> 65536"
  shows "sint b = int (unat b)"
  using assms by (intro sint_small) simp



lemma blocks_high_iff: "((ucast (b::u32) :: u64) > max_blocks) \<longleftrightarrow> 65536 < unat b"
proof -
  have "unat (ucast b :: u64) = take_bit 64 (unat b)"
    by (simp add: unsigned_ucast_eq)
  also have "\<dots> = unat b"
  proof (rule take_bit_nat_eq_self)
    have "unat b < 2 ^ 32" by (rule order_less_le_trans [OF unsigned_less]) simp
    also have "\<dots> < (2::nat) ^ 64" by simp
    finally show "unat b < 2 ^ 64" .
  qed
  finally show ?thesis
    by (simp add: word_less_nat_alt max_blocks_def NVME_MAX_TRANSFER_SIZE_def)
qed

lemma offset_high_iff: "((v::u64) > NVME_DRIVE_SIZE) \<longleftrightarrow> 4294967296 < unat v"
  by (simp add: word_less_nat_alt NVME_DRIVE_SIZE_def)

lemmas option_checks = and_1ff_iff blocks_high_iff offset_high_iff unat_eq_zero unat_gt_0

lemma good_default: "good_config default_config"
  by (simp add: good_config_def default_config_def)

lemma getopt_case_good: "good_config c \<Longrightarrow> getopt_case c x = Inr c' \<Longrightarrow> good_config c'"
  by (cases x) (auto simp: getopt_case_def good_config_def Let_def option_checks split: if_splits)

lemma parse_args_good: "good_config c \<Longrightarrow> parse_args c xs = Inr c' \<Longrightarrow> good_config c'"
proof (induction xs arbitrary: c)
  case Nil
  then show ?case by simp
next
  case (Cons x xs)
  then show ?case by (auto split: sum.splits dest: getopt_case_good)
qed

lemma parse_args_append:
  "parse_args c (xs @ ys) = (case parse_args c xs of Inl e \<Rightarrow> Inl e | Inr c' \<Rightarrow> parse_args c' ys)"
  by (induction xs arbitrary: c) (auto split: sum.splits)










subsection \<open>The session does not read the offset, but for the pattern\<close>

lemma getopt_case_same:
  "same_but_offset c1 c2 \<Longrightarrow> rel_sum (=) same_but_offset (getopt_case c1 x) (getopt_case c2 x)"
  by (cases x) (auto simp: getopt_case_def same_but_offset_def Let_def)

lemma parse_args_same:
  "same_but_offset c1 c2 \<Longrightarrow> rel_sum (=) same_but_offset (parse_args c1 xs) (parse_args c2 xs)"
proof (induction xs arbitrary: c1 c2)
  case Nil
  then show ?case by simp
next
  case (Cons x xs)
  from getopt_case_same [OF Cons.prems, of x] show ?case
    by (cases "getopt_case c1 x"; cases "getopt_case c2 x") (auto intro: Cons.IH)
qed

lemma parse_args_offset_same:
  assumes "parse_args c (pre @ Opt_offset o1 # post) = Inr c1"
    and "parse_args c (pre @ Opt_offset o2 # post) = Inr c2"
  shows "same_but_offset c1 c2"
proof -
  from assms(1) obtain c' where pre: "parse_args c pre = Inr c'"
    by (cases "parse_args c pre") (auto simp: parse_args_append)
  from assms(1) pre obtain d1 where d1: "getopt_case c' (Opt_offset o1) = Inr d1"
      "parse_args d1 post = Inr c1"
    by (cases "getopt_case c' (Opt_offset o1)") (auto simp: parse_args_append)
  from assms(2) pre obtain d2 where d2: "getopt_case c' (Opt_offset o2) = Inr d2"
      "parse_args d2 post = Inr c2"
    by (cases "getopt_case c' (Opt_offset o2)") (auto simp: parse_args_append)
  have "same_but_offset d1 d2"
    using d1(1) d2(1) by (auto simp: getopt_case_def same_but_offset_def split: if_splits)
  from parse_args_same [OF this, of post] d1(2) d2(2) show ?thesis by simp
qed

lemma validate_good: "validate opts = Inr c \<Longrightarrow> good_config c"
  by (auto simp: validate_def Let_def split: sum.splits prod.splits if_splits
      dest: parse_args_good [OF good_default])

lemma validate_parse: "validate opts = Inr c \<Longrightarrow> parse_args default_config opts = Inr c"
  by (auto simp: validate_def Let_def split: sum.splits prod.splits if_splits)

text \<open>The sizes the session passes to the buffer functions fit the buffers it allocates.\<close>

lemma mem_size_words:
  assumes "good_config c"
  shows "sint (n_blocks c * 512) = 8 * int (unat (n_blocks c * 512) div 8)"
proof -
  have b: "unat (n_blocks c) \<le> 65536" using assms by (simp add: good_config_def)
  show ?thesis
    by (simp add: blocks_mem_size_sint [OF b] blocks_mem_size [OF b])
qed

lemma memcmp2_loop_total:
  "length dest = n \<Longrightarrow> length src = n \<Longrightarrow> k + m = n \<Longrightarrow> sz = i + 8 * int m \<Longrightarrow>
   \<exists>r. memcmp2_loop dest src k k rc out i sz = Some r"
proof (induction m arbitrary: k rc out i)
  case 0
  then show ?case by (simp add: memcmp2_loop.simps)
next
  case (Suc m)
  have lt: "k < n" "i < sz" using Suc.prems by auto
  have ih: "\<exists>r. memcmp2_loop dest src (k + 1) (k + 1) rc' out' (i + 8) sz = Some r" for rc' out'
    by (rule Suc.IH) (use Suc.prems in auto)
  show ?case
    using lt Suc.prems(1,2) ih
    by (subst memcmp2_loop.simps) (simp add: Let_def)
qed

lemma memcmp2_total:
  "length dest = n \<Longrightarrow> length src = n \<Longrightarrow> \<exists>r. memcmp2 dest src (8 * int n) = Some r"
  unfolding memcmp2_def by (rule memcmp2_loop_total [where n = n and m = n]) auto

lemma session_buffers_in_bounds:
  assumes "good_config c"
  shows "\<exists>src. memset_ad (map f [0..<unat (n_blocks c * 512) div 8]) (nvme_offset c)
                 (sint (n_blocks c * 512)) = Some src \<and>
               (\<exists>r. memcmp2 (map g [0..<unat (n_blocks c * 512) div 8]) src
                      (sint (n_blocks c * 512)) = Some r)"
proof -
  let ?nw = "unat (n_blocks c * 512) div 8"
  let ?src = "map (\<lambda>j. ((nvme_offset c + 8 * of_nat j) AND 0xffffffff)
                        OR push_bit 32 (NOT (nvme_offset c + 8 * of_nat j))) [0..<?nw]"
  have sz: "sint (n_blocks c * 512) = 8 * int ?nw"
    by (rule mem_size_words [OF assms])
  have "memset_ad (map f [0..<?nw]) (nvme_offset c) (8 * int ?nw) = Some ?src"
    using memset_ad_words [of "8 * int ?nw" "map f [0..<?nw]" "nvme_offset c"] by simp
  moreover have "\<exists>r. memcmp2 (map g [0..<?nw]) ?src (8 * int ?nw) = Some r"
    by (rule memcmp2_total) simp_all
  ultimately show ?thesis unfolding sz by blast
qed

lemma session_hw_ops_same:
  assumes same: "same_but_offset c1 c2" and g1: "good_config c1" and g2: "good_config c2"
  shows "map_option hw_ops (session pf env fuel c1) = map_option hw_ops (session pf env fuel c2)"
proof -
  have nb: "n_blocks c2 = n_blocks c1" and dr: "drive_no c2 = drive_no c1"
    using same by (simp_all add: same_but_offset_def)
  from session_buffers_in_bounds [OF g1, of "src_init env" "dest_data env"]
  obtain src1 r1 where b1:
    "memset_ad (map (src_init env) [0..<unat (n_blocks c1 * 512) div 8]) (nvme_offset c1)
       (sint (n_blocks c1 * 512)) = Some src1"
    "memcmp2 (map (dest_data env) [0..<unat (n_blocks c1 * 512) div 8]) src1
       (sint (n_blocks c1 * 512)) = Some r1"
    by blast
  from session_buffers_in_bounds [OF g2, of "src_init env" "dest_data env"]
  obtain src2 r2 where b2:
    "memset_ad (map (src_init env) [0..<unat (n_blocks c1 * 512) div 8]) (nvme_offset c2)
       (sint (n_blocks c1 * 512)) = Some src2"
    "memcmp2 (map (dest_data env) [0..<unat (n_blocks c1 * 512) div 8]) src2
       (sint (n_blocks c1 * 512)) = Some r2"
    unfolding nb by blast
  show ?thesis
    unfolding session_def nb dr
    by (simp add: Let_def b1 b2 split: option.splits prod.splits)
qed

lemma dptr_low_writes_append [simp]:
  "dptr_low_writes base (xs @ ys) = dptr_low_writes base xs @ dptr_low_writes base ys"
  by (simp add: dptr_low_writes_def)

lemma lba_low_writes_append [simp]:
  "lba_low_writes base (xs @ ys) = lba_low_writes base xs @ lba_low_writes base ys"
  by (simp add: lba_low_writes_def)

lemma dptr_low_writes_Cons [simp]:
  "dptr_low_writes base [] = []"
  "dptr_low_writes base (Nvme_write a v # es) =
     (if a = DPTR_LOW + base then [v] else []) @ dptr_low_writes base es"
  "dptr_low_writes base (Nvme_read a v # es) = dptr_low_writes base es"
  "dptr_low_writes base (Action_write a v # es) = dptr_low_writes base es"
  "dptr_low_writes base (Card_alloc_slave # es) = dptr_low_writes base es"
  "dptr_low_writes base (Card_alloc_master # es) = dptr_low_writes base es"
  "dptr_low_writes base (Card_ioctl # es) = dptr_low_writes base es"
  "dptr_low_writes base (Attach_action # es) = dptr_low_writes base es"
  "dptr_low_writes base (Action_start # es) = dptr_low_writes base es"
  "dptr_low_writes base (Action_completed # es) = dptr_low_writes base es"
  "dptr_low_writes base (Detach_action # es) = dptr_low_writes base es"
  "dptr_low_writes base (Card_free_master # es) = dptr_low_writes base es"
  "dptr_low_writes base (Card_free_slave # es) = dptr_low_writes base es"
  by (simp_all add: dptr_low_writes_def)

lemma lba_low_writes_Cons [simp]:
  "lba_low_writes base [] = []"
  "lba_low_writes base (Nvme_write a v # es) =
     (if a = LBA_LOW + base then [v] else []) @ lba_low_writes base es"
  "lba_low_writes base (Nvme_read a v # es) = lba_low_writes base es"
  "lba_low_writes base (Action_write a v # es) = lba_low_writes base es"
  "lba_low_writes base (Card_alloc_slave # es) = lba_low_writes base es"
  "lba_low_writes base (Card_alloc_master # es) = lba_low_writes base es"
  "lba_low_writes base (Card_ioctl # es) = lba_low_writes base es"
  "lba_low_writes base (Attach_action # es) = lba_low_writes base es"
  "lba_low_writes base (Action_start # es) = lba_low_writes base es"
  "lba_low_writes base (Action_completed # es) = lba_low_writes base es"
  "lba_low_writes base (Detach_action # es) = lba_low_writes base es"
  "lba_low_writes base (Card_free_master # es) = lba_low_writes base es"
  "lba_low_writes base (Card_free_slave # es) = lba_low_writes base es"
  by (simp_all add: lba_low_writes_def)

lemma no_nvme_writes [simp]:
  "dptr_low_writes base (action_memcpy pf action dest src n) = []"
  "lba_low_writes base (action_memcpy pf action dest src n) = []"
  "dptr_low_writes base (fst (action_wait_idle completed)) = []"
  "lba_low_writes base (fst (action_wait_idle completed)) = []"
  "dptr_low_writes base (label_exit env) = []"
  "lba_low_writes base (label_exit env) = []"
  by (simp_all add: dptr_low_writes_def lba_low_writes_def action_memcpy_def
      action_wait_idle_def label_exit_def)

lemma session_burst:
  assumes "session pf env fuel c = Some r"
  shows "(dptr_low_writes (SNAP_M_NVME_OFFSET pf) (hw_ops r) = [] \<and>
          lba_low_writes (SNAP_M_NVME_OFFSET pf) (hw_ops r) = []) \<or>
         (dptr_low_writes (SNAP_M_NVME_OFFSET pf) (hw_ops r) =
            map (\<lambda>j. word_of_int (512 * sint (n_blocks c) * int j)) [0..<10] \<and>
          lba_low_writes (SNAP_M_NVME_OFFSET pf) (hw_ops r) =
            map (\<lambda>j. word_of_int (sint (n_blocks c) * int j)) [0..<10])"
proof (cases "nvme_read_test (nvme_regs env) (SNAP_M_NVME_OFFSET pf) fuel (drive_no c)
                (sint (n_blocks c)) 10")
  case None
  with assms show ?thesis
    by (auto simp: session_def Let_def label_exit_def action_memcpy_def action_wait_idle_def
        split: option.splits prod.splits if_splits)
next
  case (Some s)
  note b = nvme_read_test_burst [OF Some]
  from assms Some show ?thesis
    by (auto simp: session_def Let_def action_wait_idle_def action_memcpy_def label_exit_def b
        split: option.splits prod.splits if_splits)
qed

text \<open>
  C9. Two command lines that differ only in the value of one offset option and both
  pass validation make the same hardware operations, in the same order and with the
  same values; in particular the same \<open>DPTR_LOW\<close> and \<open>LBA_LOW\<close> values are written. A
  validated run that returns has either made no such write (it ended before the burst)
  or written \<open>DPTR_LOW\<close> \<open>= 512 * blocks * j\<close> and \<open>LBA_LOW\<close> \<open>= blocks * j\<close> for
  \<open>j = 0 .. 9\<close>: the burst starts at data pointer 0 and block 0 whatever the offset. And
  in every execution of \<open>nvme_read_test\<close>, also one that never returns, the \<open>j\<close>-th
  value written to either register is that same value.
\<close>

theorem burst_independent_of_offset:
  "(validate (pre @ Opt_offset o1 # post) = Inr c1 \<and>
    validate (pre @ Opt_offset o2 # post) = Inr c2 \<longrightarrow>
      map_option hw_ops (main pf env fuel (pre @ Opt_offset o1 # post)) =
      map_option hw_ops (main pf env fuel (pre @ Opt_offset o2 # post))) \<and>
   (validate opts = Inr c \<and> main pf env fuel opts = Some r \<longrightarrow>
      (dptr_low_writes (SNAP_M_NVME_OFFSET pf) (hw_ops r) = [] \<and>
       lba_low_writes (SNAP_M_NVME_OFFSET pf) (hw_ops r) = []) \<or>
      (dptr_low_writes (SNAP_M_NVME_OFFSET pf) (hw_ops r) =
         map (\<lambda>j. word_of_int (512 * sint (n_blocks c) * int j)) [0..<10] \<and>
       lba_low_writes (SNAP_M_NVME_OFFSET pf) (hw_ops r) =
         map (\<lambda>j. word_of_int (sint (n_blocks c) * int j)) [0..<10])) \<and>
   dptr_low_writes base (trace (nvme_exec hw base drive blocks nmax k)) =
     map (\<lambda>j. word_of_int (512 * blocks * int j))
       [0..<length (dptr_low_writes base (trace (nvme_exec hw base drive blocks nmax k)))] \<and>
   lba_low_writes base (trace (nvme_exec hw base drive blocks nmax k)) =
     map (\<lambda>j. word_of_int (blocks * int j))
       [0..<length (lba_low_writes base (trace (nvme_exec hw base drive blocks nmax k)))]"
proof (intro conjI impI)
  assume a: "validate (pre @ Opt_offset o1 # post) = Inr c1 \<and>
    validate (pre @ Opt_offset o2 # post) = Inr c2"
  then have "same_but_offset c1 c2"
    using parse_args_offset_same [of default_config pre o1 post c1 o2 c2]
    by (simp add: validate_parse)
  moreover have "good_config c1" "good_config c2"
    using a by (auto dest: validate_good)
  ultimately show "map_option hw_ops (main pf env fuel (pre @ Opt_offset o1 # post)) =
      map_option hw_ops (main pf env fuel (pre @ Opt_offset o2 # post))"
    using a by (simp add: main_def session_hw_ops_same)
next
  assume "validate opts = Inr c \<and> main pf env fuel opts = Some r"
  then have "session pf env fuel c = Some r" by (auto simp: main_def)
  then show "(dptr_low_writes (SNAP_M_NVME_OFFSET pf) (hw_ops r) = [] \<and>
       lba_low_writes (SNAP_M_NVME_OFFSET pf) (hw_ops r) = []) \<or>
      (dptr_low_writes (SNAP_M_NVME_OFFSET pf) (hw_ops r) =
         map (\<lambda>j. word_of_int (512 * sint (n_blocks c) * int j)) [0..<10] \<and>
       lba_low_writes (SNAP_M_NVME_OFFSET pf) (hw_ops r) =
         map (\<lambda>j. word_of_int (sint (n_blocks c) * int j)) [0..<10])"
    by (rule session_burst)
next
  show "dptr_low_writes base (trace (nvme_exec hw base drive blocks nmax k)) =
     map (\<lambda>j. word_of_int (512 * blocks * int j))
       [0..<length (dptr_low_writes base (trace (nvme_exec hw base drive blocks nmax k)))]"
    using burst_inv_exec [of base blocks hw drive nmax k] by (simp add: burst_inv_def)
next
  show "lba_low_writes base (trace (nvme_exec hw base drive blocks nmax k)) =
     map (\<lambda>j. word_of_int (blocks * int j))
       [0..<length (lba_low_writes base (trace (nvme_exec hw base drive blocks nmax k)))]"
    using burst_inv_exec [of base blocks hw drive nmax k] by (simp add: burst_inv_def)
qed

theorem burst_independent_of_offset_witness:
  "validate ([] @ Opt_offset 0 # []) = Inr default_config \<and>
   validate ([] @ Opt_offset 512 # []) = Inr (default_config\<lparr>nvme_offset := 512\<rparr>) \<and>
   map_option hw_ops (main sample_platform sample_environment 200 ([] @ Opt_offset 0 # [])) =
   map_option hw_ops (main sample_platform sample_environment 200 ([] @ Opt_offset 512 # [])) \<and>
   (\<exists>r. main sample_platform sample_environment 200 ([] @ Opt_offset 512 # []) = Some r \<and>
        exit_code r = 11 \<and>
        dptr_low_writes (SNAP_M_NVME_OFFSET sample_platform) (hw_ops r) =
          [0, 512, 1024, 1536, 2048, 2560, 3072, 3584, 4096, 4608] \<and>
        lba_low_writes (SNAP_M_NVME_OFFSET sample_platform) (hw_ops r) =
          [0, 1, 2, 3, 4, 5, 6, 7, 8, 9])"
proof -
  have v1: "validate ([] @ Opt_offset 0 # []) = Inr default_config"
    by (simp add: validate_def getopt_case_def Let_def NVME_DRIVE_SIZE_def default_config_def)
  have v2: "validate ([] @ Opt_offset 512 # []) = Inr (default_config\<lparr>nvme_offset := 512\<rparr>)"
    by (simp add: validate_def getopt_case_def Let_def NVME_DRIVE_SIZE_def default_config_def)
  have ev: "map_option (\<lambda>r. (exit_code r,
                dptr_low_writes (SNAP_M_NVME_OFFSET sample_platform) (hw_ops r),
                lba_low_writes (SNAP_M_NVME_OFFSET sample_platform) (hw_ops r)))
              (main sample_platform sample_environment 200 ([] @ Opt_offset 512 # [])) =
            Some (11, [0, 512, 1024, 1536, 2048, 2560, 3072, 3584, 4096, 4608],
                  [0, 1, 2, 3, 4, 5, 6, 7, 8, 9])"
    by code_simp
  then obtain r where r: "main sample_platform sample_environment 200 ([] @ Opt_offset 512 # []) = Some r"
    by blast
  note inst = burst_independent_of_offset
    [of "[]" 0 "[]" default_config 512 "default_config\<lparr>nvme_offset := 512\<rparr>"
        sample_platform sample_environment 200]
  have eq: "map_option hw_ops (main sample_platform sample_environment 200 ([] @ Opt_offset 0 # [])) =
      map_option hw_ops (main sample_platform sample_environment 200 ([] @ Opt_offset 512 # []))"
    using inst v1 v2 by blast
  have ex: "\<exists>r. main sample_platform sample_environment 200 ([] @ Opt_offset 512 # []) = Some r \<and>
        exit_code r = 11 \<and>
        dptr_low_writes (SNAP_M_NVME_OFFSET sample_platform) (hw_ops r) =
          [0, 512, 1024, 1536, 2048, 2560, 3072, 3584, 4096, 4608] \<and>
        lba_low_writes (SNAP_M_NVME_OFFSET sample_platform) (hw_ops r) =
          [0, 1, 2, 3, 4, 5, 6, 7, 8, 9]"
    using ev r by auto
  from v1 v2 eq ex show ?thesis by (intro conjI)
qed

subsection \<open>The NVMe-enabled check\<close>

lemma session_have_nvme:
  assumes "v \<noteq> 0"
  shows "map_option (\<lambda>r. (exit_code r, hw_ops r, printed r))
           (session pf (env\<lparr>have_nvme := 0\<rparr>) fuel c) =
         map_option (\<lambda>r. (exit_code r, hw_ops r,
                           if Card_ioctl \<in> set (hw_ops r)
                           then Msg_nvme_not_enabled # printed r else printed r))
           (session pf (env\<lparr>have_nvme := v\<rparr>) fuel c)"
  using assms
  by (auto simp: session_def Let_def label_exit_def action_wait_idle_def
      split: option.splits prod.splits)

text \<open>
  C10. A run in which the ioctl leaves \<open>have_nvme\<close> at 0 is the run in which it leaves any
  other value, with the one line \<open>ERROR: NVME not enabled\<close> printed right after the
  ioctl: the same value is returned, the same hardware operations are made (buffers, both
  copies, the burst, the comparison), and every other line printed is the same. The line
  is printed exactly when the ioctl was made.
\<close>

theorem nvme_not_enabled_only_prints:
  "v \<noteq> 0 \<longrightarrow>
     map_option (\<lambda>r. (exit_code r, hw_ops r, printed r))
       (main pf (env\<lparr>have_nvme := 0\<rparr>) fuel opts) =
     map_option (\<lambda>r. (exit_code r, hw_ops r,
                       if Card_ioctl \<in> set (hw_ops r)
                       then Msg_nvme_not_enabled # printed r else printed r))
       (main pf (env\<lparr>have_nvme := v\<rparr>) fuel opts)"
proof
  assume v: "v \<noteq> 0"
  show "map_option (\<lambda>r. (exit_code r, hw_ops r, printed r))
       (main pf (env\<lparr>have_nvme := 0\<rparr>) fuel opts) =
     map_option (\<lambda>r. (exit_code r, hw_ops r,
                       if Card_ioctl \<in> set (hw_ops r)
                       then Msg_nvme_not_enabled # printed r else printed r))
       (main pf (env\<lparr>have_nvme := v\<rparr>) fuel opts)"
  proof (cases "validate opts")
    case (Inl r)
    then have "hw_ops r = []"
      by (auto simp: validate_def Let_def split: sum.splits prod.splits if_splits)
    with Inl show ?thesis by (simp add: main_def)
  next
    case (Inr c)
    then show ?thesis by (simp add: main_def session_have_nvme [OF v])
  qed
qed

theorem nvme_not_enabled_only_prints_witness:
  "(1 :: u64) \<noteq> 0 \<and>
   map_option (\<lambda>r. (exit_code r, hw_ops r, printed r))
     (main sample_platform (sample_environment\<lparr>have_nvme := 0\<rparr>) 200 []) =
   map_option (\<lambda>r. (exit_code r, hw_ops r,
                     if Card_ioctl \<in> set (hw_ops r)
                     then Msg_nvme_not_enabled # printed r else printed r))
     (main sample_platform (sample_environment\<lparr>have_nvme := 1\<rparr>) 200 []) \<and>
   map_option (\<lambda>r. (exit_code r, printed r))
     (main sample_platform (sample_environment\<lparr>have_nvme := 0\<rparr>) 200 []) =
   Some (0, [Msg_nvme_not_enabled])"
proof -
  have ev: "map_option (\<lambda>r. (exit_code r, printed r))
      (main sample_platform (sample_environment\<lparr>have_nvme := 0\<rparr>) 200 []) =
    Some (0, [Msg_nvme_not_enabled])"
    by code_simp
  have ne: "(1 :: u64) \<noteq> 0" by simp
  from nvme_not_enabled_only_prints [of 1 sample_platform sample_environment 200 "[]"] ne ev
  show ?thesis by blast
qed

end
